theory Spec2Isabelle
  imports Main "HOL-Library.AList" "HOL-Library.Word" "HOL-Library.Char_ord" "HOL-Library.List_Lexorder"
begin

section \<open>Data model of convert\_coco.py\<close>

text \<open>
  A Python \<open>bytes\<close> value is a list of 8-bit words. A Python \<open>str\<close> is a
  \<open>string\<close>; one \<open>char\<close> stands for one code point, so \<open>length\<close> is
  Python's \<open>len\<close>.
\<close>

type_synonym bytes = "8 word list"

text \<open>
  The exceptions the script distinguishes: PIL's \<open>UnidentifiedImageError\<close> has a handler
  of its own, every other \<open>Exception\<close> is caught by the generic handler and carries its
  description.
\<close>

datatype exn = UnidentifiedImageError | Exception string

text \<open>The two exceptions that the interpreter itself raises in this script: \<open>len\<close> of
  \<open>None\<close> (a \<open>TypeError\<close>) and a source file that does not compile (a
  \<open>SyntaxError\<close>).\<close>

definition len_error :: exn where
  "len_error = Exception (''object of type '' @ [CHR 0x27] @ ''NoneType'' @ [CHR 0x27] @ '' has no len()'')"

definition syntax_error :: exn where
  "syntax_error = Exception ''invalid syntax''"

text \<open>Every \<open>print\<close> of the script is one message; the interpolated values are its
  arguments.\<close>

datatype split = train | test

datatype message =
    WarnUnexpectedFormat string string
  | MsgConverting string string
  | ErrCannotIdentify string
  | ErrValidating string exn
  | MsgStep1
  | WarnNotBytes string string
  | ErrParquet string exn
  | MsgStep2 nat
  | WarnMissing string
  | MsgFinished
  | MsgProcessed nat
  | MsgSaved string
  | ErrNoParquet string
  | MsgFound nat split

subsection \<open>The image library\<close>

text \<open>
  PIL is an external library. The script uses \<open>Image.open\<close>, \<open>verify\<close>, the attributes
  \<open>size\<close>, \<open>format\<close> and \<open>mode\<close>, \<open>convert\<close> and \<open>save\<close>; they are the fields of
  a record that the validator takes as a parameter. A call that raises returns \<open>Inl\<close>
  (\<open>Some\<close> for \<open>verify\<close>, which has no result).
\<close>

record 'img pil =
  Image_open :: "bytes \<Rightarrow> exn + 'img"
  img_verify :: "'img \<Rightarrow> exn option"
  img_size :: "'img \<Rightarrow> int \<times> int"
  img_format :: "'img \<Rightarrow> string option"
  img_mode :: "'img \<Rightarrow> string"
  img_convert :: "'img \<Rightarrow> string \<Rightarrow> exn + 'img"
  img_save :: "'img \<Rightarrow> string \<Rightarrow> exn + bytes"

text \<open>\<open>str.lower\<close> on the ASCII letters (PIL's format names are ASCII).\<close>

definition lower_char :: "char \<Rightarrow> char" where
  "lower_char c =
     (case map_of (zip ''ABCDEFGHIJKLMNOPQRSTUVWXYZ'' ''abcdefghijklmnopqrstuvwxyz'') c of
        Some d \<Rightarrow> d
      | None \<Rightarrow> c)"

definition lower :: "string \<Rightarrow> string" where
  "lower s = map lower_char s"

subsection \<open>get\_image\_bytes\_validate\_and\_dims\<close>

text \<open>The two \<open>except\<close> clauses: both print and return the tuple of \<open>None\<close>s, which
  is \<open>None\<close> here.\<close>

definition handler :: "string \<Rightarrow> message list \<Rightarrow> exn
    \<Rightarrow> (bytes \<times> string \<times> int \<times> int) option \<times> message list" where
  "handler filename_for_error out e =
     (case e of
        UnidentifiedImageError \<Rightarrow> (None, out @ [ErrCannotIdentify filename_for_error])
      | Exception d \<Rightarrow> (None, out @ [ErrValidating filename_for_error e]))"

text \<open>Lines 27 to 31: the lower-cased format, \<open>jpeg\<close> when the format is missing, and
  \<open>jpeg\<close> again when it is not one of the three supported names.\<close>

definition detected_format :: "'img pil \<Rightarrow> 'img \<Rightarrow> string" where
  "detected_format P img =
     (case img_format P img of
        None \<Rightarrow> ''jpeg''
      | Some f \<Rightarrow> if f = [] then ''jpeg'' else lower f)"

definition chosen_format :: "'img pil \<Rightarrow> 'img \<Rightarrow> string" where
  "chosen_format P img =
     (if detected_format P img \<notin> set [''jpeg'', ''png'', ''webp''] then ''jpeg''
      else detected_format P img)"

definition get_image_bytes_validate_and_dims ::
    "'img pil \<Rightarrow> bytes \<Rightarrow> string \<Rightarrow> (bytes \<times> string \<times> int \<times> int) option \<times> message list" where
  "get_image_bytes_validate_and_dims P img_bytes filename_for_error =
     (case Image_open P img_bytes of
        Inl e \<Rightarrow> handler filename_for_error [] e
      | Inr img0 \<Rightarrow>
         (case img_verify P img0 of
            Some e \<Rightarrow> handler filename_for_error [] e
          | None \<Rightarrow>
             (case Image_open P img_bytes of
                Inl e \<Rightarrow> handler filename_for_error [] e
              | Inr img \<Rightarrow>
                 (let (width, height) = img_size P img;
                      out1 = (if detected_format P img \<notin> set [''jpeg'', ''png'', ''webp'']
                              then [WarnUnexpectedFormat (detected_format P img) filename_for_error]
                              else []);
                      image_format = chosen_format P img
                  in if image_format = ''jpeg'' \<and> img_mode P img \<noteq> ''RGB'' then
                       (let out2 = out1 @ [MsgConverting filename_for_error (img_mode P img)]
                        in case img_convert P img ''RGB'' of
                             Inl e \<Rightarrow> handler filename_for_error out2 e
                           | Inr img' \<Rightarrow>
                              (case img_save P img' ''JPEG'' of
                                 Inl e \<Rightarrow> handler filename_for_error out2 e
                               | Inr validated_bytes \<Rightarrow>
                                   (Some (validated_bytes, image_format, width, height), out2)))
                     else if image_format = ''png'' \<and> img_mode P img = ''RGBA'' then
                       (Some (img_bytes, image_format, width, height), out1)
                     else
                       (Some (img_bytes, image_format, width, height), out1)))))"

subsection \<open>A small image library for concrete runs\<close>

text \<open>
  An instance of the library record, used where a statement is evaluated on concrete
  bytes. The first byte decides what the payload is: \<open>0x89\<close> an RGBA PNG, \<open>0xFF\<close> an RGB
  JPEG, \<open>0x42\<close> an RGB BMP, \<open>0x47\<close> a palette GIF, \<open>0x4C\<close> a greyscale JPEG; anything
  else cannot be identified. A payload whose second byte is \<open>0\<close> is truncated: it opens
  and fails \<open>verify\<close>. Saving yields the JPEG marker followed by the pixel bytes.
\<close>

record toy_img =
  t_format :: "string option"
  t_mode :: string
  t_size :: "int \<times> int"
  t_data :: bytes

definition toy_open :: "bytes \<Rightarrow> exn + toy_img" where
  "toy_open b =
     (case b of
        [] \<Rightarrow> Inl UnidentifiedImageError
      | m # rest \<Rightarrow>
          if m = 0x89 then Inr \<lparr>t_format = Some ''PNG'', t_mode = ''RGBA'', t_size = (4, 3), t_data = rest\<rparr>
          else if m = 0xFF then Inr \<lparr>t_format = Some ''JPEG'', t_mode = ''RGB'', t_size = (4, 3), t_data = rest\<rparr>
          else if m = 0x42 then Inr \<lparr>t_format = Some ''BMP'', t_mode = ''RGB'', t_size = (4, 3), t_data = rest\<rparr>
          else if m = 0x47 then Inr \<lparr>t_format = Some ''GIF'', t_mode = ''P'', t_size = (4, 3), t_data = rest\<rparr>
          else if m = 0x4C then Inr \<lparr>t_format = Some ''JPEG'', t_mode = ''L'', t_size = (4, 3), t_data = rest\<rparr>
          else Inl UnidentifiedImageError)"

definition toy_verify :: "toy_img \<Rightarrow> exn option" where
  "toy_verify img =
     (case t_data img of
        [] \<Rightarrow> None
      | d # _ \<Rightarrow> if d = 0 then Some (Exception ''truncated file'') else None)"

definition toy_pil :: "toy_img pil" where
  "toy_pil =
     \<lparr>Image_open = toy_open,
      img_verify = toy_verify,
      img_size = t_size,
      img_format = t_format,
      img_mode = t_mode,
      img_convert = (\<lambda>img m. Inr (img\<lparr>t_mode := m\<rparr>)),
      img_save = (\<lambda>img f. Inr (0xFF # t_data img))\<rparr>"

section \<open>Pass 1: aggregation\<close>

text \<open>
  The \<open>image\<close> field of a row is a dict with a key \<open>bytes\<close> (whose value may be
  \<open>None\<close>: the column is a struct with a nullable binary field), a \<open>bytes\<close> value, or
  anything else; \<open>Other\<close> carries the name of the type, which the warning prints.
  The column \<open>filename\<close> is a string. The column \<open>caption\<close> is a string or null:
  \<open>None\<close> is a null caption, a value that has no \<open>len\<close>. Line 113 stores the caption
  as it is, so the prompt of an entry can be \<open>None\<close> as well.
\<close>

datatype image_field = Envelope "bytes option" | Raw bytes | Other string

record row =
  filename :: string
  caption :: "string option"
  image :: image_field

record entry =
  prompt_text :: "string option"
  image_bytes :: "bytes option"

text \<open>
  \<open>image_data\<close> is a \<open>defaultdict\<close>. A Python dict keeps insertion order, and the
  second pass iterates over it, so it is an association list with distinct keys, newest
  key last. Reading a missing key inserts the default entry.
\<close>

type_synonym image_data = "(string \<times> entry) list"

definition default_entry :: entry where
  "default_entry = \<lparr>prompt_text = Some [], image_bytes = None\<rparr>"

definition dd_getitem :: "image_data \<Rightarrow> string \<Rightarrow> entry \<times> image_data" where
  "dd_getitem d k =
     (case map_of d k of
        Some e \<Rightarrow> (e, d)
      | None \<Rightarrow> (default_entry, d @ [(k, default_entry)]))"

text \<open>Lines 102 to 108: \<open>None\<close> is the \<open>else\<close> branch (the row is skipped).\<close>

fun extract_image_bytes :: "image_field \<Rightarrow> bytes option option" where
  "extract_image_bytes (Envelope b) = Some b"
| "extract_image_bytes (Raw b) = Some (Some b)"
| "extract_image_bytes (Other t) = None"

fun type_name :: "image_field \<Rightarrow> string" where
  "type_name (Envelope b) = ''dict''"
| "type_name (Raw b) = ''bytes''"
| "type_name (Other t) = t"

text \<open>
  The body of the loop over the rows (lines 97 to 115). The comparison of line 114
  takes \<open>len\<close> of the caption and of the stored prompt and raises when either is
  \<open>None\<close>; it is reached only for a filename whose entry holds bytes, so the dict is
  as it was when the row raises.
\<close>

definition process_row :: "row \<Rightarrow> image_data \<times> message list \<Rightarrow> exn + image_data \<times> message list" where
  "process_row r st =
     (case st of (d, out) \<Rightarrow>
        (case extract_image_bytes (image r) of
           None \<Rightarrow> Inr (d, out @ [WarnNotBytes (filename r) (type_name (image r))])
         | Some ib \<Rightarrow>
            (case dd_getitem d (filename r) of (e, d1) \<Rightarrow>
               if image_bytes e = None then
                 Inr (AList.update (filename r) \<lparr>prompt_text = caption r, image_bytes = ib\<rparr> d1, out)
               else
                 (case caption r of
                    None \<Rightarrow> Inl len_error
                  | Some c \<Rightarrow>
                     (case prompt_text e of
                        None \<Rightarrow> Inl len_error
                      | Some p \<Rightarrow>
                          if length c > length p then
                            Inr (AList.update (filename r) (e\<lparr>prompt_text := Some c\<rparr>) d1, out)
                          else Inr (d1, out))))))"

text \<open>The loop over the rows of one file: it ends at the first row that raises, with
  the state that the rows before it produced, and hands the exception on.\<close>

fun process_rows :: "row list \<Rightarrow> image_data \<times> message list
    \<Rightarrow> (image_data \<times> message list) \<times> exn option" where
  "process_rows [] st = (st, None)"
| "process_rows (r # rs) st =
     (case process_row r st of
        Inl e \<Rightarrow> (st, Some e)
      | Inr st' \<Rightarrow> process_rows rs st')"

text \<open>
  Reading a Parquet file is the parameter \<open>read_table\<close>: the rows of the file, or the
  exception that \<open>pq.read_table\<close> or \<open>to_pandas\<close> raises. The \<open>try\<close> of line 87
  encloses the reading and the loop over the rows: the \<open>except\<close> clause of line 117
  prints the exception of either and goes on to the next file; what the rows before a
  raising row did to the dict stays.
\<close>

definition except_clause :: "string \<Rightarrow> (image_data \<times> message list) \<times> exn option
    \<Rightarrow> image_data \<times> message list" where
  "except_clause pf_path res =
     (case res of
        (st, None) \<Rightarrow> st
      | (st, Some e) \<Rightarrow> (fst st, snd st @ [ErrParquet pf_path e]))"

definition process_file :: "(string \<Rightarrow> exn + row list) \<Rightarrow> string
    \<Rightarrow> image_data \<times> message list \<Rightarrow> image_data \<times> message list" where
  "process_file read_table pf_path st =
     (case read_table pf_path of
        Inl e \<Rightarrow> except_clause pf_path (st, Some e)
      | Inr rows \<Rightarrow> except_clause pf_path (process_rows rows st))"

fun process_files :: "(string \<Rightarrow> exn + row list) \<Rightarrow> string list
    \<Rightarrow> image_data \<times> message list \<Rightarrow> image_data \<times> message list" where
  "process_files read_table [] st = st"
| "process_files read_table (pf # pfs) st =
     process_files read_table pfs (process_file read_table pf st)"

text \<open>The first pass as a whole: it starts from the empty dict.\<close>

definition aggregate :: "(string \<Rightarrow> exn + row list) \<Rightarrow> string list \<Rightarrow> image_data \<times> message list" where
  "aggregate read_table parquet_files = process_files read_table parquet_files ([], [MsgStep1])"

section \<open>Pass 2: validation and writing\<close>

subsection \<open>os.path.splitext and os.path.join (POSIX)\<close>

text \<open>\<open>str.rfind\<close> for one character: the last index where it occurs, or \<open>-1\<close>.\<close>

definition rfind :: "string \<Rightarrow> char \<Rightarrow> int" where
  "rfind p c =
     (case filter (\<lambda>i. p ! i = c) (rev [0..<length p]) of
        [] \<Rightarrow> -1
      | i # _ \<Rightarrow> int i)"

text \<open>
  \<open>genericpath._splitext\<close> with separator \<open>/\<close> and no alternative separator: the
  extension starts at the last dot, if that dot comes after the last separator and some
  character between the separator and the dot is not a dot.
\<close>

definition splitext :: "string \<Rightarrow> string \<times> string" where
  "splitext p =
     (let sepIndex = rfind p CHR ''/'';
          dotIndex = rfind p CHR ''.''
      in if dotIndex > sepIndex \<and>
            list_ex (\<lambda>k. p ! k \<noteq> CHR ''.'') [nat (sepIndex + 1)..<nat dotIndex]
         then (take (nat dotIndex) p, drop (nat dotIndex) p)
         else (p, []))"

definition path_join :: "string \<Rightarrow> string \<Rightarrow> string" where
  "path_join a b =
     (if b \<noteq> [] \<and> hd b = CHR ''/'' then b
      else if a = [] \<or> last a = CHR ''/'' then a @ b
      else a @ ''/'' @ b)"

subsection \<open>The sample and the second loop\<close>

text \<open>
  The dict passed to \<open>sink.write\<close>: \<open>__key__\<close>, the image bytes under the key that is
  the format name, and under \<open>json\<close> the dict with \<open>prompt\<close>, \<open>width\<close> and \<open>height\<close>.
\<close>

record metadata =
  prompt :: string
  width :: int
  height :: int

record sample =
  key :: string
  image_ext :: string
  image_payload :: bytes
  json :: metadata

text \<open>
  The state of the second loop: the arguments of the calls of \<open>sink.write\<close> so far, in
  order, the counter and the printed messages.
\<close>

record write_state =
  written :: "sample list"
  total_images_processed :: nat
  printed :: "message list"

text \<open>The body of the loop over \<open>image_data.items()\<close> (lines 123 to 150);
  \<open>not prompt_text\<close> holds of \<open>None\<close> and of the empty string.\<close>

definition write_entry :: "'img pil \<Rightarrow> string \<times> entry \<Rightarrow> write_state \<Rightarrow> write_state" where
  "write_entry P item st =
     (case item of (base_filename, data) \<Rightarrow>
        (case image_bytes data of
           None \<Rightarrow> st\<lparr>printed := printed st @ [WarnMissing base_filename]\<rparr>
         | Some ib \<Rightarrow>
            (case prompt_text data of
               None \<Rightarrow> st\<lparr>printed := printed st @ [WarnMissing base_filename]\<rparr>
             | Some p \<Rightarrow>
                if p = [] then st\<lparr>printed := printed st @ [WarnMissing base_filename]\<rparr>
                else
                  (case get_image_bytes_validate_and_dims P ib base_filename of
                     (None, out) \<Rightarrow> st\<lparr>printed := printed st @ out\<rparr>
                   | (Some (validated_bytes, image_format, w, h), out) \<Rightarrow>
                       st\<lparr>written := written st @
                            [\<lparr>key = fst (splitext base_filename),
                              image_ext = image_format,
                              image_payload = validated_bytes,
                              json = \<lparr>prompt = p, width = w, height = h\<rparr>\<rparr>],
                          total_images_processed := total_images_processed st + 1,
                          printed := printed st @ out\<rparr>))))"

fun write_entries :: "'img pil \<Rightarrow> image_data \<Rightarrow> write_state \<Rightarrow> write_state" where
  "write_entries P [] st = st"
| "write_entries P (item # items) st = write_entries P items (write_entry P item st)"

section \<open>The shard writer and the driver\<close>

subsection \<open>Shard file names\<close>

text \<open>The directive \<open>%06d\<close> of the shard pattern: the decimal digits of the shard
  number, padded with zeros on the left to six characters.\<close>

definition digit_char :: "nat \<Rightarrow> char" where
  "digit_char d = ''0123456789'' ! d"

function decimal :: "nat \<Rightarrow> string" where
  "decimal n = (if n < 10 then [digit_char n] else decimal (n div 10) @ [digit_char (n mod 10)])"
  by pat_completeness auto
termination
  by (relation "measure id") auto

declare decimal.simps [simp del]

definition fmt_06d :: "nat \<Rightarrow> string" where
  "fmt_06d n = replicate (6 - length (decimal n)) CHR ''0'' @ decimal n"

text \<open>Line 73 builds the pattern; the directory and the prefix go into it as they are.\<close>

definition shard_pattern :: "string \<Rightarrow> string \<Rightarrow> string" where
  "shard_pattern output_dir output_prefix = path_join output_dir (output_prefix @ ''-%06d.tar'')"

text \<open>
  The writer computes a file name as \<open>pattern % shard\<close>, on the whole pattern. When
  the only \<open>%\<close> of the pattern is the one of a directive \<open>%06d\<close>, the result is the
  pattern with the directive replaced by the padded number. For every other pattern
  (a \<open>%\<close> in the directory or in the prefix) the result, a string or an exception, is
  what the parameter \<open>other\<close> says: the operator of the language on that pattern.
\<close>

definition percent_int :: "(string \<Rightarrow> nat \<Rightarrow> exn + string) \<Rightarrow> string \<Rightarrow> nat \<Rightarrow> exn + string" where
  "percent_int other pat n =
     (let before = takeWhile (\<lambda>c. c \<noteq> CHR ''%'') pat;
          rest = dropWhile (\<lambda>c. c \<noteq> CHR ''%'') pat
      in if take 4 rest = ''%06d'' \<and> CHR ''%'' \<notin> set (drop 4 rest)
         then Inr (before @ fmt_06d n @ drop 4 rest)
         else other pat n)"

subsection \<open>ShardWriter\<close>

text \<open>
  Modelled from the spec: \<open>webdataset.ShardWriter\<close>, the archive writer of an
  external library whose code is not in the repository; the script only constructs it
  (line 76, with the pattern of line 73 and \<open>maxcount=samples_per_shard\<close>) and calls
  \<open>write\<close>. The spec's contract (section 4.3): samples are accepted in arrival order
  and grouped into shards of at most N samples; a shard goes to its own numbered file
  when it is full or when the stream is closed; a sample is never split across shards;
  numbers start at 0 and go up by 1 and are filled into the file name. Here: the writer
  holds the samples of the open shard; a \<open>write\<close> that finds the open shard full closes
  it and opens the next number; \<open>close\<close> writes the open shard. Computing a file name
  can raise, and then the constructor or the \<open>write\<close> raises. A limit on the size of a
  shard in bytes is not part of the spec's contract and not of this model.
\<close>

record shard_writer =
  name_of :: "nat \<Rightarrow> exn + string"
  maxcount :: int
  closed :: "(string \<times> sample list) list"
  fname :: string
  current :: "sample list"
  shard :: nat

definition ShardWriter :: "(nat \<Rightarrow> exn + string) \<Rightarrow> int \<Rightarrow> exn + shard_writer" where
  "ShardWriter pattern mc =
     (case pattern 0 of
        Inl e \<Rightarrow> Inl e
      | Inr f \<Rightarrow>
          Inr \<lparr>name_of = pattern, maxcount = mc, closed = [], fname = f, current = [], shard = 1\<rparr>)"

definition next_stream :: "shard_writer \<Rightarrow> exn + shard_writer" where
  "next_stream w =
     (case name_of w (shard w) of
        Inl e \<Rightarrow> Inl e
      | Inr f \<Rightarrow>
          Inr (w\<lparr>closed := closed w @ [(fname w, current w)],
                 fname := f,
                 current := [],
                 shard := shard w + 1\<rparr>))"

definition sw_write :: "shard_writer \<Rightarrow> sample \<Rightarrow> exn + shard_writer" where
  "sw_write w s =
     (if int (length (current w)) \<ge> maxcount w then
        (case next_stream w of
           Inl e \<Rightarrow> Inl e
         | Inr w1 \<Rightarrow> Inr (w1\<lparr>current := current w1 @ [s]\<rparr>))
      else Inr (w\<lparr>current := current w @ [s]\<rparr>))"

fun sw_write_all :: "shard_writer \<Rightarrow> sample list \<Rightarrow> exn + shard_writer" where
  "sw_write_all w [] = Inr w"
| "sw_write_all w (s # ss) =
     (case sw_write w s of
        Inl e \<Rightarrow> Inl e
      | Inr w' \<Rightarrow> sw_write_all w' ss)"

definition sw_close :: "shard_writer \<Rightarrow> (string \<times> sample list) list" where
  "sw_close w = closed w @ [(fname w, current w)]"

subsection \<open>convert\_parquet\_to\_webdataset\_with\_dims and the main block\<close>

text \<open>
  What the script does to the outside: the image library, \<open>os.makedirs\<close> (\<open>Some\<close> the
  exception it raises), the reading of a Parquet file, \<open>glob.glob\<close> and the operator
  \<open>%\<close> on patterns with a \<open>%\<close> of their own are the environment. The outcome of a call
  that returns is what it printed, the directories it created and the shard files it
  wrote; a call that ends in an exception that nothing catches is \<open>Inl\<close> of it.
\<close>

record 'img env =
  env_pil :: "'img pil"
  makedirs :: "string \<Rightarrow> exn option"
  read_table :: "string \<Rightarrow> exn + row list"
  glob :: "string \<Rightarrow> string list"
  percent_other :: "string \<Rightarrow> nat \<Rightarrow> exn + string"

record outcome =
  stdout :: "message list"
  dirs_created :: "string list"
  shard_files :: "(string \<times> sample list) list"

text \<open>The second loop of a call, from the dict of the first: its final state holds the
  samples handed to \<open>sink.write\<close>, in order.\<close>

definition second_pass :: "'img env \<Rightarrow> string list \<Rightarrow> write_state" where
  "second_pass E parquet_files =
     (case aggregate (read_table E) parquet_files of (d, out1) \<Rightarrow>
        write_entries (env_pil E) d
          \<lparr>written = [], total_images_processed = 0, printed = out1 @ [MsgStep2 (length d)]\<rparr>)"

definition convert_parquet_to_webdataset_with_dims ::
    "'img env \<Rightarrow> string list \<Rightarrow> string \<Rightarrow> string \<Rightarrow> int \<Rightarrow> exn + outcome" where
  "convert_parquet_to_webdataset_with_dims E parquet_files out_dir out_prefix samples_per_shard =
     (case makedirs E out_dir of
        Some e \<Rightarrow> Inl e
      | None \<Rightarrow>
         (case ShardWriter (percent_int (percent_other E) (shard_pattern out_dir out_prefix))
                 samples_per_shard of
            Inl e \<Rightarrow> Inl e
          | Inr sink0 \<Rightarrow>
             (let st = second_pass E parquet_files
              in case sw_write_all sink0 (written st) of
                   Inl e \<Rightarrow> Inl e
                 | Inr sink \<Rightarrow>
                     Inr \<lparr>stdout = printed st @
                            [MsgFinished, MsgProcessed (total_images_processed st), MsgSaved out_dir],
                          dirs_created = [out_dir],
                          shard_files = sw_close sink\<rparr>)))"

record args =
  input_dir :: string
  output_dir :: string
  arg_split :: split
  arg_samples_per_shard :: int

fun split_name :: "split \<Rightarrow> string" where
  "split_name train = ''train''"
| "split_name test = ''test''"

definition parquet_pattern :: "args \<Rightarrow> string" where
  "parquet_pattern a = path_join (input_dir a) (split_name (arg_split a) @ ''-*.parquet'')"

text \<open>The statements under \<open>if __name__ == "__main__"\<close> (lines 166 to 176), after the
  arguments are parsed.\<close>

definition main_block :: "'img env \<Rightarrow> args \<Rightarrow> exn + outcome" where
  "main_block E a =
     (let parquet_files = sort (glob E (parquet_pattern a))
      in if parquet_files = [] then
           Inr \<lparr>stdout = [ErrNoParquet (parquet_pattern a)], dirs_created = [], shard_files = []\<rparr>
         else
           (case convert_parquet_to_webdataset_with_dims E parquet_files
                   (path_join (output_dir a) (split_name (arg_split a)))
                   (''coco-'' @ split_name (arg_split a))
                   (arg_samples_per_shard a) of
              Inl e \<Rightarrow> Inl e
            | Inr oc \<Rightarrow>
                Inr (oc\<lparr>stdout := MsgFound (length parquet_files) (arg_split a) # stdout oc\<rparr>)))"

subsection \<open>Running the file\<close>

text \<open>
  Line 1 of the file as it is: a backquote stands before the comment. A backquote is
  no token of the language, so the file does not compile: running the script ends in a
  \<open>SyntaxError\<close> before any of its statements runs, whatever the arguments.
\<close>

definition line_1 :: string where
  "line_1 = [CHR 0x60] @ ''# Modified again to include height, width, and use '' @ [CHR 0x27] @
     ''prompt'' @ [CHR 0x27] @ '' key in JSON''"

definition starts_with_backquote :: "string \<Rightarrow> bool" where
  "starts_with_backquote l = (case l of [] \<Rightarrow> False | c # _ \<Rightarrow> c = CHR 0x60)"

definition script :: "'img env \<Rightarrow> args \<Rightarrow> exn + outcome" where
  "script E a = (if starts_with_backquote line_1 then Inl syntax_error else main_block E a)"

section \<open>Vocabulary of the statements\<close>

text \<open>The rows of a file whose loop body ran to its end, from a state: the rows before
  the first one that raises.\<close>

fun rows_done :: "row list \<Rightarrow> image_data \<times> message list \<Rightarrow> row list" where
  "rows_done [] st = []"
| "rows_done (r # rs) st =
     (case process_row r st of
        Inl e \<Rightarrow> []
      | Inr st' \<Rightarrow> r # rows_done rs st')"

text \<open>The rows that the first pass processes, in scan order: for every file that can be
  read, in the order given, its rows before the first one that raises.\<close>

fun scanned_from :: "(string \<Rightarrow> exn + row list) \<Rightarrow> string list \<Rightarrow> image_data \<times> message list
    \<Rightarrow> row list" where
  "scanned_from rt [] st = []"
| "scanned_from rt (p # ps) st =
     (case rt p of Inl e \<Rightarrow> [] | Inr rows \<Rightarrow> rows_done rows st)
       @ scanned_from rt ps (process_file rt p st)"

definition scanned_rows :: "(string \<Rightarrow> exn + row list) \<Rightarrow> string list \<Rightarrow> row list" where
  "scanned_rows rt files = scanned_from rt files ([], [MsgStep1])"

text \<open>All rows of the files that can be read.\<close>

definition all_rows :: "(string \<Rightarrow> exn + row list) \<Rightarrow> string list \<Rightarrow> row list" where
  "all_rows rt files = concat (map (\<lambda>p. case rt p of Inl e \<Rightarrow> [] | Inr rows \<Rightarrow> rows) files)"

text \<open>The rows of a filename that are not skipped for the shape of their image field.\<close>

definition accepted :: "string \<Rightarrow> row list \<Rightarrow> row list" where
  "accepted f rs = filter (\<lambda>r. filename r = f \<and> extract_image_bytes (image r) \<noteq> None) rs"

text \<open>The captions of rows that are strings.\<close>

definition captions :: "row list \<Rightarrow> string list" where
  "captions rs = List.map_filter caption rs"

text \<open>\<open>p\<close> is the first caption of maximum length in \<open>cs\<close>.\<close>

definition first_longest :: "string list \<Rightarrow> string \<Rightarrow> bool" where
  "first_longest cs p \<longleftrightarrow>
     (\<exists>i<length cs. cs ! i = p \<and> (\<forall>j<length cs. length (cs ! j) \<le> length p) \<and>
        (\<forall>j<i. length (cs ! j) < length p))"

text \<open>The number that a string of decimal digits denotes.\<close>

definition digit_value :: "char \<Rightarrow> nat" where
  "digit_value c = length (takeWhile (\<lambda>d. d \<noteq> c) ''0123456789'')"

definition decimal_value :: "string \<Rightarrow> nat" where
  "decimal_value s = foldl (\<lambda>a c. 10 * a + digit_value c) 0 s"

subsection \<open>Auxiliary functions of the proofs\<close>

fun keep_longest :: "string \<Rightarrow> string list \<Rightarrow> string" where
  "keep_longest best [] = best"
| "keep_longest best (c # cs) = keep_longest (if length c > length best then c else best) cs"

text \<open>What a row that does not raise does to the entry of its own filename.\<close>

definition step_entry :: "entry option \<Rightarrow> row \<Rightarrow> entry option" where
  "step_entry eo r =
     (case extract_image_bytes (image r) of
        None \<Rightarrow> eo
      | Some ib \<Rightarrow>
         (case eo of
            None \<Rightarrow> Some \<lparr>prompt_text = caption r, image_bytes = ib\<rparr>
          | Some e \<Rightarrow>
              if image_bytes e = None then Some \<lparr>prompt_text = caption r, image_bytes = ib\<rparr>
              else
                (case (caption r, prompt_text e) of
                   (Some c, Some p) \<Rightarrow>
                     if length c > length p then Some (e\<lparr>prompt_text := Some c\<rparr>) else Some e
                 | _ \<Rightarrow> Some e)))"

text \<open>The sample that the body of the second loop writes for an item, if any.\<close>

definition sample_of :: "'img pil \<Rightarrow> string \<times> entry \<Rightarrow> sample option" where
  "sample_of P item =
     (case item of (base_filename, data) \<Rightarrow>
        (case image_bytes data of
           None \<Rightarrow> None
         | Some ib \<Rightarrow>
            (case prompt_text data of
               None \<Rightarrow> None
             | Some p \<Rightarrow>
                if p = [] then None
                else
                  (case fst (get_image_bytes_validate_and_dims P ib base_filename) of
                     None \<Rightarrow> None
                   | Some (validated_bytes, image_format, w, h) \<Rightarrow>
                       Some \<lparr>key = fst (splitext base_filename),
                             image_ext = image_format,
                             image_payload = validated_bytes,
                             json = \<lparr>prompt = p, width = w, height = h\<rparr>\<rparr>))))"

text \<open>The invariant of the shard writer after the samples \<open>xs\<close>, when the file name of
  shard \<open>k\<close> is \<open>nm k\<close>: the closed shards are full and named in order, the open shard is
  not over-full, and nothing is lost.\<close>

definition sw_inv :: "(nat \<Rightarrow> string) \<Rightarrow> int \<Rightarrow> sample list \<Rightarrow> shard_writer \<Rightarrow> bool" where
  "sw_inv nm N xs w \<longleftrightarrow>
     name_of w = (\<lambda>k. Inr (nm k)) \<and> maxcount w = N \<and> shard w = Suc (length (closed w)) \<and>
     fname w = nm (length (closed w)) \<and>
     map fst (closed w) = map nm [0..<length (closed w)] \<and>
     (\<forall>sh \<in> set (closed w). int (length (snd sh)) = N) \<and>
     int (length (current w)) \<le> N \<and>
     concat (map snd (closed w)) @ current w = xs \<and>
     (xs \<noteq> [] \<longrightarrow> current w \<noteq> [])"

subsection \<open>Concrete inputs\<close>

text \<open>One file, two rows of one filename: the first has the longer caption and a null
  image field.\<close>

definition run1_table :: "string \<Rightarrow> exn + row list" where
  "run1_table p =
     (if p = ''train-0.parquet'' then
        Inr [\<lparr>filename = ''a.jpg'', caption = Some ''a long caption'', image = Other ''NoneType''\<rparr>,
             \<lparr>filename = ''a.jpg'', caption = Some ''x'', image = Raw [0xFF, 1]\<rparr>]
      else Inl (Exception ''No such file''))"

text \<open>Two files; any other path cannot be read. In the first file the fifth row has a
  null caption for a filename whose entry holds bytes: it raises, and the sixth row is
  not processed.\<close>

definition run2_table :: "string \<Rightarrow> exn + row list" where
  "run2_table p =
     (if p = ''train-0.parquet'' then
        Inr [\<lparr>filename = ''a.jpg'', caption = Some ''ab'', image = Raw [0xFF, 1]\<rparr>,
             \<lparr>filename = ''a.jpg'', caption = Some ''the longest caption, on a row that is skipped'',
               image = Other ''NoneType''\<rparr>,
             \<lparr>filename = ''b.png'', caption = Some ''another image'', image = Raw [0x89, 7]\<rparr>,
             \<lparr>filename = ''a.jpg'', caption = Some ''abcd'', image = Envelope (Some [0xFF, 2])\<rparr>,
             \<lparr>filename = ''b.png'', caption = None, image = Raw [0x89, 8]\<rparr>,
             \<lparr>filename = ''a.jpg'', caption = Some ''a caption after the row that raises'',
               image = Raw [0xFF, 9]\<rparr>]
      else if p = ''train-1.parquet'' then
        Inr [\<lparr>filename = ''a.jpg'', caption = Some ''wxyz'', image = Raw [0xFF, 3]\<rparr>,
             \<lparr>filename = ''a.jpg'', caption = Some ''abc'', image = Raw [0xFF, 4]\<rparr>]
      else Inl (Exception ''No such file''))"

text \<open>One file, two filenames that differ in the extension only.\<close>

definition run3_table :: "string \<Rightarrow> exn + row list" where
  "run3_table p =
     (if p = ''train-0.parquet'' then
        Inr [\<lparr>filename = ''a.jpg'', caption = Some ''a cat'', image = Raw [0xFF, 1]\<rparr>,
             \<lparr>filename = ''a.png'', caption = Some ''a dog'', image = Raw [0x89, 2]\<rparr>]
      else Inl (Exception ''No such file''))"

text \<open>One file in which the first row of \<open>a.jpg\<close> is an envelope without bytes.\<close>

definition run4_table :: "string \<Rightarrow> exn + row list" where
  "run4_table p =
     (if p = ''train-0.parquet'' then
        Inr [\<lparr>filename = ''a.jpg'', caption = Some ''no bytes yet'', image = Envelope None\<rparr>,
             \<lparr>filename = ''b.png'', caption = Some ''another image'', image = Raw [0x89, 7]\<rparr>,
             \<lparr>filename = ''a.jpg'', caption = None, image = Raw [0xFF, 1]\<rparr>,
             \<lparr>filename = ''a.jpg'', caption = Some ''abcd'', image = Envelope (Some [0xFF, 2])\<rparr>]
      else Inl (Exception ''No such file''))"

definition toy_sample :: sample where
  "toy_sample =
     \<lparr>key = ''a'', image_ext = ''jpeg'', image_payload = [0xFF, 1],
      json = \<lparr>prompt = ''a cat'', width = 4, height = 3\<rparr>\<rparr>"

text \<open>One file of 25000 rows with 25000 filenames and valid images.\<close>

definition big_row :: "nat \<Rightarrow> row" where
  "big_row i =
     \<lparr>filename = replicate i CHR ''x'' @ ''.jpg'', caption = Some ''c'', image = Raw [0xFF, 1]\<rparr>"

definition big_count :: nat where
  "big_count = 25000"

definition big_table :: "string \<Rightarrow> exn + row list" where
  "big_table p =
     (if p = ''train-0.parquet'' then Inr (map big_row [0..<big_count])
      else Inl (Exception ''No such file''))"

definition big_env :: "toy_img env" where
  "big_env =
     \<lparr>env_pil = toy_pil,
      makedirs = (\<lambda>d. None),
      read_table = big_table,
      glob = (\<lambda>pat. [''train-0.parquet'']),
      percent_other = (\<lambda>pat n. Inl (Exception ''not enough arguments for format string''))\<rparr>"

text \<open>An environment in which no path matches and no directory can be created.\<close>

definition empty_env :: "toy_img env" where
  "empty_env =
     \<lparr>env_pil = toy_pil,
      makedirs = (\<lambda>d. Some (Exception ''Permission denied'')),
      read_table = run1_table,
      glob = (\<lambda>pat. []),
      percent_other = (\<lambda>pat n. Inl (Exception ''not enough arguments for format string''))\<rparr>"

definition train_args :: args where
  "train_args =
     \<lparr>input_dir = ''data'', output_dir = ''out'', arg_split = train, arg_samples_per_shard = 10000\<rparr>"

section \<open>Pass 1: the aggregation\<close>

subsection \<open>One row, seen from one filename\<close>

lemma map_of_process_row:
  assumes "process_row r (d, out) = Inr (d', out')"
  shows "map_of d' f = (if filename r = f then step_entry (map_of d f) r else map_of d f)"
  using assms
  by (auto simp: process_row_def dd_getitem_def step_entry_def default_entry_def update_conv'
      map_add_def split: option.splits if_splits)

text \<open>Whether a row raises, and what it does to the dict, does not depend on what was
  printed before.\<close>

lemma process_row_Inl:
  "process_row r (d, out) = Inl e \<Longrightarrow> process_row r (d, out') = Inl e"
  by (auto simp: process_row_def split: option.splits prod.splits if_splits)

lemma process_row_Inr:
  "process_row r (d, out) = Inr (d', o1) \<Longrightarrow> \<exists>o2. process_row r (d, out') = Inr (d', o2)"
  by (auto simp: process_row_def split: option.splits prod.splits if_splits)

lemma process_rows_log:
  "fst (fst (process_rows rs (d, out))) = fst (fst (process_rows rs (d, out')))
   \<and> snd (process_rows rs (d, out)) = snd (process_rows rs (d, out'))"
proof (induction rs arbitrary: d out out')
  case Nil
  then show ?case by simp
next
  case (Cons r rs)
  show ?case
  proof (cases "process_row r (d, out)")
    case (Inl e)
    with process_row_Inl[OF Inl, of out'] show ?thesis by simp
  next
    case (Inr st1)
    obtain d1 o1 where st1: "st1 = (d1, o1)" by (cases st1)
    from process_row_Inr[of r d out d1 o1 out'] Inr st1
    obtain o2 where "process_row r (d, out') = Inr (d1, o2)" by auto
    with Inr st1 Cons.IH[of d1 o1 o2] show ?thesis by simp
  qed
qed

lemma rows_done_log: "rows_done rs (d, out) = rows_done rs (d, out')"
proof (induction rs arbitrary: d out out')
  case Nil
  then show ?case by simp
next
  case (Cons r rs)
  show ?case
  proof (cases "process_row r (d, out)")
    case (Inl e)
    with process_row_Inl[OF Inl, of out'] show ?thesis by simp
  next
    case (Inr st1)
    obtain d1 o1 where st1: "st1 = (d1, o1)" by (cases st1)
    from process_row_Inr[of r d out d1 o1 out'] Inr st1
    obtain o2 where "process_row r (d, out') = Inr (d1, o2)" by auto
    with Inr st1 Cons.IH[of d1 o1 o2] show ?thesis by simp
  qed
qed

text \<open>The rows that ran to their end can be processed again from the same dict: none
  raises, and the dict at the end is the one the loop left.\<close>

lemma process_rows_done:
  "snd (process_rows (rows_done rs (d, out)) (d, out)) = None
   \<and> fst (fst (process_rows (rows_done rs (d, out)) (d, out))) = fst (fst (process_rows rs (d, out)))"
proof (induction rs arbitrary: d out)
  case Nil
  then show ?case by simp
next
  case (Cons r rs)
  show ?case
  proof (cases "process_row r (d, out)")
    case (Inl e)
    then show ?thesis by simp
  next
    case (Inr st1)
    obtain d1 o1 where st1: "st1 = (d1, o1)" by (cases st1)
    with Inr Cons.IH[of d1 o1] show ?thesis by simp
  qed
qed

lemma process_rows_append:
  "process_rows (xs @ ys) st =
     (case process_rows xs st of
        (st', None) \<Rightarrow> process_rows ys st'
      | (st', Some e) \<Rightarrow> (st', Some e))"
  by (induction xs arbitrary: st) (auto split: sum.splits)

lemma fst_process_file:
  "fst (process_file rt p (d, out)) =
     (case rt p of Inl e \<Rightarrow> d | Inr rows \<Rightarrow> fst (fst (process_rows rows (d, out))))"
  by (auto simp: process_file_def except_clause_def split: sum.splits prod.splits option.splits)

text \<open>The dict after the files is the dict after the rows that were processed.\<close>

lemma process_files_scanned:
  "snd (process_rows (scanned_from rt files (d, out)) (d, out')) = None
   \<and> fst (fst (process_rows (scanned_from rt files (d, out)) (d, out'))) =
       fst (process_files rt files (d, out))"
proof (induction files arbitrary: d out out')
  case Nil
  then show ?case by simp
next
  case (Cons p ps)
  obtain d1 o1 where st1: "process_file rt p (d, out) = (d1, o1)"
    by (cases "process_file rt p (d, out)")
  let ?pre = "case rt p of Inl e \<Rightarrow> [] | Inr rows \<Rightarrow> rows_done rows (d, out)"
  have pre: "snd (process_rows ?pre (d, out')) = None \<and> fst (fst (process_rows ?pre (d, out'))) = d1"
  proof (cases "rt p")
    case (Inl e)
    then show ?thesis using st1 fst_process_file[of rt p d out] by simp
  next
    case (Inr rows)
    have "snd (process_rows (rows_done rows (d, out)) (d, out')) = None
       \<and> fst (fst (process_rows (rows_done rows (d, out)) (d, out'))) =
           fst (fst (process_rows rows (d, out)))"
      using process_rows_done[of rows d out]
        process_rows_log[of "rows_done rows (d, out)" d out out'] by simp
    then show ?thesis using Inr st1 fst_process_file[of rt p d out] by simp
  qed
  then obtain o2 where o2: "process_rows ?pre (d, out') = ((d1, o2), None)"
    by (cases "process_rows ?pre (d, out')") (auto simp: prod_eq_iff)
  from Cons.IH[of d1 o1 o2] o2 st1 show ?case
    by (simp add: process_rows_append)
qed

lemma aggregate_scanned:
  "snd (process_rows (scanned_rows rt files) ([], [])) = None
   \<and> fst (fst (process_rows (scanned_rows rt files) ([], []))) = fst (aggregate rt files)"
  unfolding aggregate_def scanned_rows_def by (rule process_files_scanned)

text \<open>Over rows of which none raises, the entry of a filename is the fold of
  \<open>step_entry\<close> over the rows of that filename.\<close>

lemma map_of_process_rows:
  assumes "snd (process_rows rs (d, out)) = None"
  shows "map_of (fst (fst (process_rows rs (d, out)))) f =
           foldl step_entry (map_of d f) (filter (\<lambda>r. filename r = f) rs)"
  using assms
proof (induction rs arbitrary: d out)
  case Nil
  then show ?case by simp
next
  case (Cons r rs)
  show ?case
  proof (cases "process_row r (d, out)")
    case (Inl e)
    with Cons.prems show ?thesis by simp
  next
    case (Inr st1)
    obtain d1 o1 where st1: "st1 = (d1, o1)" by (cases st1)
    have m: "map_of d1 f = (if filename r = f then step_entry (map_of d f) r else map_of d f)"
      using map_of_process_row[of r d out d1 o1 f] Inr st1 by simp
    have "snd (process_rows rs (d1, o1)) = None" using Cons.prems Inr st1 by simp
    from Cons.IH[OF this] m Inr st1 show ?thesis by simp
  qed
qed

lemma map_of_aggregate:
  "map_of (fst (aggregate rt files)) f =
     foldl step_entry None (filter (\<lambda>r. filename r = f) (scanned_rows rt files))"
  using aggregate_scanned[of rt files]
    map_of_process_rows[of "scanned_rows rt files" "[]" "[]" f] by simp

subsection \<open>When no caption is null, every row of a readable file is processed\<close>

lemma set_update_cases:
  "x \<in> set (AList.update k v d) \<Longrightarrow> x = (k, v) \<or> x \<in> set d"
  by (induction d) (auto split: if_splits)

lemma process_row_prompts:
  assumes "\<forall>x \<in> set d. prompt_text (snd x) \<noteq> None" and "caption r \<noteq> None"
  shows "\<exists>d' out'. process_row r (d, out) = Inr (d', out') \<and>
           (\<forall>x \<in> set d'. prompt_text (snd x) \<noteq> None)"
proof (cases "extract_image_bytes (image r)")
  case None
  then show ?thesis using assms by (simp add: process_row_def)
next
  case (Some ib)
  obtain c where c: "caption r = Some c" using assms(2) by auto
  show ?thesis
  proof (cases "map_of d (filename r)")
    case None
    then show ?thesis using Some c assms(1)
      by (auto simp: process_row_def dd_getitem_def default_entry_def dest!: set_update_cases)
  next
    case (Some e)
    then have "(filename r, e) \<in> set d" by (rule map_of_SomeD)
    then obtain p where p: "prompt_text e = Some p" using assms(1) by fastforce
    show ?thesis using Some \<open>extract_image_bytes (image r) = Some ib\<close> c p assms(1)
      by (auto simp: process_row_def dd_getitem_def dest!: set_update_cases)
  qed
qed

lemma rows_done_all:
  assumes "\<forall>x \<in> set d. prompt_text (snd x) \<noteq> None" and "\<forall>r \<in> set rs. caption r \<noteq> None"
  shows "rows_done rs (d, out) = rs \<and> snd (process_rows rs (d, out)) = None \<and>
         (\<forall>x \<in> set (fst (fst (process_rows rs (d, out)))). prompt_text (snd x) \<noteq> None)"
  using assms
proof (induction rs arbitrary: d out)
  case Nil
  then show ?case by simp
next
  case (Cons r rs)
  from process_row_prompts[of d r out] Cons.prems
  obtain d1 o1 where s: "process_row r (d, out) = Inr (d1, o1)"
    "\<forall>x \<in> set d1. prompt_text (snd x) \<noteq> None" by auto
  from Cons.IH[OF s(2), of o1] Cons.prems(2) s(1) show ?case by simp
qed

lemma scanned_from_all:
  assumes "\<forall>x \<in> set d. prompt_text (snd x) \<noteq> None"
    and "\<forall>r \<in> set (all_rows rt files). caption r \<noteq> None"
  shows "scanned_from rt files (d, out) = all_rows rt files"
  using assms
proof (induction files arbitrary: d out)
  case Nil
  then show ?case by (simp add: all_rows_def)
next
  case (Cons p ps)
  obtain d1 o1 where st1: "process_file rt p (d, out) = (d1, o1)"
    by (cases "process_file rt p (d, out)")
  have rest: "\<forall>r \<in> set (all_rows rt ps). caption r \<noteq> None"
    using Cons.prems(2) by (simp add: all_rows_def)
  show ?case
  proof (cases "rt p")
    case (Inl e)
    then have "d1 = d" using st1 fst_process_file[of rt p d out] by simp
    with Cons.IH[of d1 o1] Cons.prems(1) rest st1 Inl show ?thesis
      by (simp add: all_rows_def)
  next
    case (Inr rows)
    have "\<forall>r \<in> set rows. caption r \<noteq> None" using Cons.prems(2) Inr by (simp add: all_rows_def)
    from rows_done_all[OF Cons.prems(1) this, of out]
    have a: "rows_done rows (d, out) = rows"
      "\<forall>x \<in> set (fst (fst (process_rows rows (d, out)))). prompt_text (snd x) \<noteq> None"
      by simp_all
    have "d1 = fst (fst (process_rows rows (d, out)))"
      using st1 Inr fst_process_file[of rt p d out] by simp
    with Cons.IH[of d1 o1] a rest st1 Inr show ?thesis
      by (simp add: all_rows_def)
  qed
qed

lemma scanned_rows_all:
  "\<forall>r \<in> set (all_rows rt files). caption r \<noteq> None \<Longrightarrow> scanned_rows rt files = all_rows rt files"
  unfolding scanned_rows_def by (rule scanned_from_all) simp_all

text \<open>The rows that are processed are always rows of the readable files, in their
  order.\<close>

lemma rows_done_prefix: "\<exists>zs. rs = rows_done rs st @ zs"
  by (induction rs arbitrary: st) (auto split: sum.splits)

subsection \<open>The first caption of maximum length\<close>

lemma first_longest_snoc:
  assumes "first_longest pre best"
  shows "first_longest (pre @ [c]) (if length c > length best then c else best)"
proof -
  from assms obtain i where i: "i < length pre" "pre ! i = best"
    "\<forall>j<length pre. length (pre ! j) \<le> length best" "\<forall>j<i. length (pre ! j) < length best"
    unfolding first_longest_def by blast
  show ?thesis
  proof (cases "length c > length best")
    case True
    have "\<forall>j<length (pre @ [c]). length ((pre @ [c]) ! j) \<le> length c"
      using i(3) True by (auto simp: nth_append less_Suc_eq)
    moreover have "\<forall>j<length pre. length ((pre @ [c]) ! j) < length c"
      using i(3) True by (auto simp: nth_append dest: le_less_trans)
    ultimately show ?thesis using True unfolding first_longest_def
      by (intro exI[of _ "length pre"]) simp
  next
    case False
    have "\<forall>j<length (pre @ [c]). length ((pre @ [c]) ! j) \<le> length best"
      using i(3) False by (auto simp: nth_append less_Suc_eq)
    moreover have "\<forall>j<i. length ((pre @ [c]) ! j) < length best"
      using i(1,4) by (auto simp: nth_append)
    moreover have "(pre @ [c]) ! i = best" using i(1,2) by (simp add: nth_append)
    ultimately show ?thesis using False i(1) unfolding first_longest_def
      by (intro exI[of _ i]) simp
  qed
qed

lemma first_longest_keep:
  "first_longest pre best \<Longrightarrow> first_longest (pre @ cs) (keep_longest best cs)"
proof (induction cs arbitrary: pre best)
  case Nil
  then show ?case by simp
next
  case (Cons c cs)
  from first_longest_snoc[OF Cons.prems, of c] Cons.IH[of "pre @ [c]"]
  show ?case by simp
qed

lemma first_longest_single: "first_longest [c] c"
  by (simp add: first_longest_def)

lemma first_longest_keep_longest: "first_longest (c # cs) (keep_longest c cs)"
  using first_longest_keep[OF first_longest_single, of c cs] by simp

text \<open>At most one caption is the first of maximum length.\<close>

lemma first_longest_unique:
  assumes "first_longest cs p" "first_longest cs q"
  shows "p = q"
proof -
  from assms(1) obtain i where i: "i < length cs" "cs ! i = p"
    "\<forall>j<length cs. length (cs ! j) \<le> length p" "\<forall>j<i. length (cs ! j) < length p"
    unfolding first_longest_def by blast
  from assms(2) obtain k where k: "k < length cs" "cs ! k = q"
    "\<forall>j<length cs. length (cs ! j) \<le> length q" "\<forall>j<k. length (cs ! j) < length q"
    unfolding first_longest_def by blast
  have "length p = length q" using i k by (metis le_antisym)
  then have "\<not> k < i" "\<not> i < k" using i k by auto
  then show ?thesis using i k by (simp add: linorder_neq_iff[symmetric])
qed

subsection \<open>The entry of a filename over the rows\<close>

text \<open>A row that is skipped for its image field does nothing to the entry.\<close>

lemma foldl_step_accepted:
  "foldl step_entry eo (filter (\<lambda>r. filename r = f) rs) = foldl step_entry eo (accepted f rs)"
proof (induction rs arbitrary: eo)
  case Nil
  then show ?case by (simp add: accepted_def)
next
  case (Cons r rs)
  have "extract_image_bytes (image r) = None \<Longrightarrow> step_entry eo r = eo"
    by (simp add: step_entry_def)
  with Cons show ?case by (auto simp: accepted_def)
qed

text \<open>Once bytes are stored, no row changes them.\<close>

lemma step_entry_keeps_bytes:
  assumes "image_bytes e = Some b"
  shows "\<exists>e'. step_entry (Some e) r = Some e' \<and> image_bytes e' = Some b"
  using assms by (auto simp: step_entry_def split: option.splits)

lemma foldl_step_keeps_bytes:
  assumes "image_bytes e = Some b"
  shows "\<exists>e'. foldl step_entry (Some e) rs = Some e' \<and> image_bytes e' = Some b"
  using assms
proof (induction rs arbitrary: e)
  case Nil
  then show ?case by simp
next
  case (Cons r rs)
  from step_entry_keeps_bytes[OF Cons.prems, of r]
  obtain e1 where "step_entry (Some e) r = Some e1" "image_bytes e1 = Some b" by auto
  with Cons.IH[of e1] show ?case by simp
qed

text \<open>Once bytes and a prompt are stored, rows with string captions can only replace
  the prompt by a longer caption.\<close>

lemma foldl_step_stored:
  assumes "image_bytes e \<noteq> None" "prompt_text e = Some p"
    and "\<forall>r \<in> set rs. extract_image_bytes (image r) \<noteq> None \<and> caption r \<noteq> None"
  shows "foldl step_entry (Some e) rs = Some (e\<lparr>prompt_text := Some (keep_longest p (captions rs))\<rparr>)"
  using assms
proof (induction rs arbitrary: e p)
  case Nil
  then show ?case by (simp add: captions_def List.map_filter_simps)
next
  case (Cons r rs)
  obtain c ib where r: "caption r = Some c" "extract_image_bytes (image r) = Some ib"
    using Cons.prems(3) by auto
  let ?e1 = "if length c > length p then e\<lparr>prompt_text := Some c\<rparr> else e"
  let ?p1 = "if length c > length p then c else p"
  have s: "step_entry (Some e) r = Some ?e1"
    using r Cons.prems(1,2) by (auto simp: step_entry_def)
  have "image_bytes ?e1 \<noteq> None" "prompt_text ?e1 = Some ?p1"
    using Cons.prems(1,2) by auto
  from Cons.IH[OF this] Cons.prems(3) s r(1) show ?case
    by (auto simp: captions_def List.map_filter_simps)
qed

text \<open>An entry that is missing or holds no bytes takes bytes and caption of the next
  accepted row.\<close>

lemma foldl_step_fresh:
  assumes "eo = None \<or> (\<exists>e. eo = Some e \<and> image_bytes e = None)"
    and "\<forall>r \<in> set (r1 # rest). extract_image_bytes (image r) \<noteq> None \<and>
           extract_image_bytes (image r) \<noteq> Some None \<and> caption r \<noteq> None"
  shows "\<exists>e c1. foldl step_entry eo (r1 # rest) = Some e \<and> caption r1 = Some c1 \<and>
           prompt_text e = Some (keep_longest c1 (captions rest)) \<and>
           Some (image_bytes e) = extract_image_bytes (image r1)"
proof -
  obtain c1 b1 where r1: "caption r1 = Some c1" "extract_image_bytes (image r1) = Some (Some b1)"
    using assms(2) by auto
  let ?e1 = "\<lparr>prompt_text = Some c1, image_bytes = Some b1\<rparr>"
  have s: "step_entry eo r1 = Some ?e1"
    using assms(1) r1 by (auto simp: step_entry_def)
  have "foldl step_entry (Some ?e1) rest =
      Some (?e1\<lparr>prompt_text := Some (keep_longest c1 (captions rest))\<rparr>)"
    by (rule foldl_step_stored) (use assms(2) in auto)
  with s r1 show ?thesis by simp
qed

text \<open>The bytes that end up stored are those of the first row that carries bytes.\<close>

lemma foldl_step_first_bytes:
  assumes "eo = None \<or> (\<exists>e. eo = Some e \<and> image_bytes e = None)"
    and "find (\<lambda>r. extract_image_bytes (image r) \<noteq> None \<and>
           extract_image_bytes (image r) \<noteq> Some None) rs = Some r"
  shows "\<exists>e. foldl step_entry eo rs = Some e \<and> Some (image_bytes e) = extract_image_bytes (image r)"
  using assms
proof (induction rs arbitrary: eo)
  case Nil
  then show ?case by simp
next
  case (Cons r0 rs)
  show ?case
  proof (cases "extract_image_bytes (image r0)")
    case None
    then have "step_entry eo r0 = eo" by (simp add: step_entry_def)
    with Cons None show ?thesis by simp
  next
    case (Some ib)
    have s: "step_entry eo r0 = Some \<lparr>prompt_text = caption r0, image_bytes = ib\<rparr>"
      using Cons.prems(1) Some by (auto simp: step_entry_def)
    show ?thesis
    proof (cases ib)
      case None
      with Cons.IH[of "Some \<lparr>prompt_text = caption r0, image_bytes = ib\<rparr>"] Cons.prems(2) Some s
      show ?thesis by simp
    next
      case (Some b)
      then have "r = r0" using Cons.prems(2) \<open>extract_image_bytes (image r0) = Some ib\<close> by simp
      moreover from foldl_step_keeps_bytes[of "\<lparr>prompt_text = caption r0, image_bytes = ib\<rparr>" b rs] Some
      obtain e' where "foldl step_entry (Some \<lparr>prompt_text = caption r0, image_bytes = ib\<rparr>) rs = Some e'"
        "image_bytes e' = Some b" by auto
      ultimately show ?thesis using s Some \<open>extract_image_bytes (image r0) = Some ib\<close> by simp
    qed
  qed
qed

lemma find_filter: "find P (filter Q xs) = find (\<lambda>x. Q x \<and> P x) xs"
  by (induction xs) auto

subsection \<open>Bytes stay, also over rows that raise and files that cannot be read\<close>

lemma stored_bytes_rows:
  assumes "map_of d f = Some e" "image_bytes e = Some b"
  shows "\<exists>e'. map_of (fst (fst (process_rows rs (d, out)))) f = Some e' \<and> image_bytes e' = Some b"
  using assms
proof (induction rs arbitrary: d e out)
  case Nil
  then show ?case by simp
next
  case (Cons r rs)
  show ?case
  proof (cases "process_row r (d, out)")
    case (Inl x)
    with Cons.prems show ?thesis by simp
  next
    case (Inr st1)
    obtain d1 o1 where st1: "st1 = (d1, o1)" by (cases st1)
    have m: "map_of d1 f = (if filename r = f then step_entry (map_of d f) r else map_of d f)"
      using map_of_process_row[of r d out d1 o1 f] Inr st1 by simp
    from step_entry_keeps_bytes[OF Cons.prems(2), of r] m Cons.prems
    obtain e1 where "map_of d1 f = Some e1" "image_bytes e1 = Some b" by (auto split: if_splits)
    from Cons.IH[OF this, of o1] Inr st1 show ?thesis by simp
  qed
qed

lemma stored_bytes_files:
  assumes "map_of d f = Some e" "image_bytes e = Some b"
  shows "\<exists>e'. map_of (fst (process_files rt files (d, out))) f = Some e' \<and> image_bytes e' = Some b"
  using assms
proof (induction files arbitrary: d e out)
  case Nil
  then show ?case by simp
next
  case (Cons p ps)
  obtain d1 o1 where st1: "process_file rt p (d, out) = (d1, o1)"
    by (cases "process_file rt p (d, out)")
  have "\<exists>e1. map_of d1 f = Some e1 \<and> image_bytes e1 = Some b"
    using st1 fst_process_file[of rt p d out] stored_bytes_rows[OF Cons.prems] Cons.prems
    by (auto split: sum.splits)
  then obtain e1 where "map_of d1 f = Some e1" "image_bytes e1 = Some b" by auto
  from Cons.IH[OF this, of o1] st1 show ?case by simp
qed

subsection \<open>The keys of the dict stay distinct\<close>

lemma distinct_process_row:
  "distinct (map fst d) \<Longrightarrow> process_row r (d, out) = Inr (d', out') \<Longrightarrow> distinct (map fst d')"
  by (auto simp: process_row_def dd_getitem_def distinct_update map_of_eq_None_iff
      split: option.splits if_splits)

lemma distinct_process_rows:
  "distinct (map fst d) \<Longrightarrow> distinct (map fst (fst (fst (process_rows rs (d, out)))))"
proof (induction rs arbitrary: d out)
  case Nil
  then show ?case by simp
next
  case (Cons r rs)
  show ?case
  proof (cases "process_row r (d, out)")
    case (Inl e)
    with Cons.prems show ?thesis by simp
  next
    case (Inr st1)
    obtain d1 o1 where st1: "st1 = (d1, o1)" by (cases st1)
    from distinct_process_row[OF Cons.prems, of r out d1 o1] Inr st1
    have "distinct (map fst d1)" by simp
    from Cons.IH[OF this, of o1] Inr st1 show ?thesis by simp
  qed
qed

lemma aggregate_distinct: "distinct (map fst (fst (aggregate rt files)))"
  using distinct_process_rows[of "[]" "scanned_rows rt files" "[]"] aggregate_scanned[of rt files]
  by simp

subsection \<open>Claims about the aggregation\<close>

text \<open>
  C1, as amended. The rows that count for a filename are the rows of it that the pass
  processed (in a file, the rows before the first one that raises; when no caption is
  null these are all rows of the files that can be read, see \<open>scanned_rows_all\<close>) and
  did not skip for the shape of their image field. If there is such a row, and each of
  them carries image bytes and a caption that is a string, then after the pass over all
  files (in the order given, which the main block sorts) the entry of the filename
  exists and its prompt is the first caption of maximum length among those rows.
\<close>

theorem longest_caption_of_processed_rows:
  assumes "accepted f (scanned_rows rt files) \<noteq> []"
    and "\<forall>r \<in> set (accepted f (scanned_rows rt files)).
           extract_image_bytes (image r) \<noteq> Some None \<and> caption r \<noteq> None"
  shows "\<exists>e p. map_of (fst (aggregate rt files)) f = Some e \<and> prompt_text e = Some p \<and>
            first_longest (captions (accepted f (scanned_rows rt files))) p"
proof -
  from assms(1) obtain r1 rest where c: "accepted f (scanned_rows rt files) = r1 # rest"
    by (cases "accepted f (scanned_rows rt files)") auto
  have "\<forall>r \<in> set (accepted f (scanned_rows rt files)). extract_image_bytes (image r) \<noteq> None"
    by (simp add: accepted_def)
  with assms(2) c have h: "\<forall>r \<in> set (r1 # rest). extract_image_bytes (image r) \<noteq> None \<and>
      extract_image_bytes (image r) \<noteq> Some None \<and> caption r \<noteq> None"
    by simp
  have "None = None \<or> (\<exists>e. (None::entry option) = Some e \<and> image_bytes e = None)" by simp
  from foldl_step_fresh[OF this h]
  obtain e c1 where e: "foldl step_entry None (r1 # rest) = Some e" "caption r1 = Some c1"
    "prompt_text e = Some (keep_longest c1 (captions rest))" by blast
  have m: "map_of (fst (aggregate rt files)) f = Some e"
    using e(1) c by (simp only: map_of_aggregate foldl_step_accepted)
  have "captions (r1 # rest) = c1 # captions rest"
    using e(2) by (simp add: captions_def List.map_filter_simps)
  with first_longest_keep_longest[of c1 "captions rest"] m e(3) c show ?thesis by simp
qed

text \<open>Three paths, the second of which cannot be read. In the first file the second
  row is skipped, and the fifth row raises, so the sixth is not processed. The captions
  that count for \<open>a.jpg\<close> are \<open>ab\<close>, \<open>abcd\<close>, \<open>wxyz\<close> and \<open>abc\<close>, and the prompt is
  \<open>abcd\<close>, the first of the two of length four.\<close>

theorem longest_caption_of_processed_rows_witness:
  "captions (accepted ''a.jpg''
       (scanned_rows run2_table [''train-0.parquet'', ''missing.parquet'', ''train-1.parquet'']))
     = [''ab'', ''abcd'', ''wxyz'', ''abc'']
   \<and> list_all (\<lambda>r. extract_image_bytes (image r) \<noteq> Some None \<and> caption r \<noteq> None)
        (accepted ''a.jpg''
          (scanned_rows run2_table [''train-0.parquet'', ''missing.parquet'', ''train-1.parquet'']))
   \<and> (\<exists>e p. map_of (fst (aggregate run2_table [''train-0.parquet'', ''missing.parquet'', ''train-1.parquet'']))
              ''a.jpg'' = Some e \<and> prompt_text e = Some p \<and>
            first_longest [''ab'', ''abcd'', ''wxyz'', ''abc''] p)
   \<and> prompt_text (the (map_of
         (fst (aggregate run2_table [''train-0.parquet'', ''missing.parquet'', ''train-1.parquet'']))
         ''a.jpg'')) = Some ''abcd''"
proof -
  let ?files = "[''train-0.parquet'', ''missing.parquet'', ''train-1.parquet'']"
  have h1: "accepted ''a.jpg'' (scanned_rows run2_table ?files) \<noteq> []" by code_simp
  have l: "list_all (\<lambda>r. extract_image_bytes (image r) \<noteq> Some None \<and> caption r \<noteq> None)
        (accepted ''a.jpg'' (scanned_rows run2_table ?files))" by code_simp
  then have h2: "\<forall>r \<in> set (accepted ''a.jpg'' (scanned_rows run2_table ?files)).
           extract_image_bytes (image r) \<noteq> Some None \<and> caption r \<noteq> None"
    by (simp only: list_all_iff)
  have c: "captions (accepted ''a.jpg'' (scanned_rows run2_table ?files))
      = [''ab'', ''abcd'', ''wxyz'', ''abc'']"
    by code_simp
  have p: "prompt_text (the (map_of (fst (aggregate run2_table ?files)) ''a.jpg'')) = Some ''abcd''"
    by code_simp
  from longest_caption_of_processed_rows[OF h1 h2]
  have ex: "\<exists>e p. map_of (fst (aggregate run2_table ?files)) ''a.jpg'' = Some e \<and>
      prompt_text e = Some p \<and> first_longest [''ab'', ''abcd'', ''wxyz'', ''abc''] p"
    unfolding c .
  show ?thesis by (intro conjI) (rule c l ex p)+
qed

text \<open>C1 as stated fails: the longest caption seen for \<open>a.jpg\<close> is on a row that is
  skipped, and the stored prompt is the shorter caption \<open>x\<close>.\<close>

theorem skipped_row_caption_not_counted:
  "prompt_text (the (map_of (fst (aggregate run1_table [''train-0.parquet''])) ''a.jpg'')) = Some ''x''
   \<and> captions (filter (\<lambda>r. filename r = ''a.jpg'') (all_rows run1_table [''train-0.parquet'']))
       = [''a long caption'', ''x'']
   \<and> \<not> first_longest
       (captions (filter (\<lambda>r. filename r = ''a.jpg'') (all_rows run1_table [''train-0.parquet''])))
       ''x''"
proof -
  have c: "captions (filter (\<lambda>r. filename r = ''a.jpg'') (all_rows run1_table [''train-0.parquet'']))
      = [''a long caption'', ''x'']" by code_simp
  have p: "prompt_text (the (map_of (fst (aggregate run1_table [''train-0.parquet''])) ''a.jpg''))
      = Some ''x''"
    by code_simp
  have "\<not> first_longest [''a long caption'', ''x''] ''x''"
  proof
    assume "first_longest [''a long caption'', ''x''] ''x''"
    then have "\<forall>j<length [''a long caption'', ''x''].
        length ([''a long caption'', ''x''] ! j) \<le> length ''x''"
      unfolding first_longest_def by blast
    then have "0 < length [''a long caption'', ''x''] \<longrightarrow>
        length ([''a long caption'', ''x''] ! 0) \<le> length ''x''" by (rule spec)
    then show False by simp
  qed
  then show ?thesis unfolding c p by simp
qed

text \<open>
  C3. Once the entry of a filename holds bytes, it holds the same bytes after any
  further rows of the file, whatever their filenames, image fields and captions and
  whether or not one of them raises, and after any further files; and after the whole
  pass the stored bytes are those of the first processed row of the filename whose
  image field yields bytes (a row whose envelope holds no bytes stores none).
\<close>

theorem image_bytes_stored_once:
  "(map_of d f = Some e \<and> image_bytes e = Some b \<longrightarrow>
      (\<exists>e'. map_of (fst (fst (process_rows rs (d, out)))) f = Some e' \<and> image_bytes e' = Some b)
    \<and> (\<exists>e'. map_of (fst (process_files rt files (d, out))) f = Some e' \<and> image_bytes e' = Some b))
   \<and> (find (\<lambda>r. filename r = f \<and> extract_image_bytes (image r) \<noteq> None \<and>
                extract_image_bytes (image r) \<noteq> Some None) (scanned_rows rt files) = Some r \<longrightarrow>
      (\<exists>e'. map_of (fst (aggregate rt files)) f = Some e' \<and>
         Some (image_bytes e') = extract_image_bytes (image r)))"
proof (intro conjI impI)
  assume "map_of d f = Some e \<and> image_bytes e = Some b"
  then show "\<exists>e'. map_of (fst (fst (process_rows rs (d, out)))) f = Some e' \<and> image_bytes e' = Some b"
    using stored_bytes_rows by blast
next
  assume "map_of d f = Some e \<and> image_bytes e = Some b"
  then show "\<exists>e'. map_of (fst (process_files rt files (d, out))) f = Some e' \<and> image_bytes e' = Some b"
    using stored_bytes_files by blast
next
  assume "find (\<lambda>r. filename r = f \<and> extract_image_bytes (image r) \<noteq> None \<and>
                extract_image_bytes (image r) \<noteq> Some None) (scanned_rows rt files) = Some r"
  then have "find (\<lambda>r. extract_image_bytes (image r) \<noteq> None \<and>
                extract_image_bytes (image r) \<noteq> Some None)
      (filter (\<lambda>r. filename r = f) (scanned_rows rt files)) = Some r"
    by (simp only: find_filter)
  moreover have "None = None \<or> (\<exists>e. (None::entry option) = Some e \<and> image_bytes e = None)" by simp
  ultimately show "\<exists>e'. map_of (fst (aggregate rt files)) f = Some e' \<and>
         Some (image_bytes e') = extract_image_bytes (image r)"
    unfolding map_of_aggregate by (rule foldl_step_first_bytes[rotated])
qed

text \<open>An entry with bytes, then a row with other bytes and a row that raises, then the
  file of \<open>run4_table\<close>: the bytes stay. And in the pass over \<open>run4_table\<close> alone the
  first row of \<open>a.jpg\<close> is an envelope without bytes, the second row of \<open>a.jpg\<close>
  carries the bytes that are stored, and the third raises.\<close>

theorem image_bytes_stored_once_witness:
  "(\<exists>e'. map_of (fst (fst (process_rows
        [\<lparr>filename = ''a.jpg'', caption = Some ''a longer caption'', image = Raw [0x89, 5]\<rparr>,
         \<lparr>filename = ''a.jpg'', caption = None, image = Raw [0x89, 6]\<rparr>,
         \<lparr>filename = ''a.jpg'', caption = Some ''c'', image = Raw [0x89, 7]\<rparr>]
        ([(''a.jpg'', \<lparr>prompt_text = Some ''first'', image_bytes = Some [0xFF, 0]\<rparr>)], [])))) ''a.jpg'' = Some e'
      \<and> image_bytes e' = Some [0xFF, 0])
   \<and> (\<exists>e'. map_of (fst (process_files run4_table [''train-0.parquet'']
        ([(''a.jpg'', \<lparr>prompt_text = Some ''first'', image_bytes = Some [0xFF, 0]\<rparr>)], []))) ''a.jpg'' = Some e'
      \<and> image_bytes e' = Some [0xFF, 0])
   \<and> find (\<lambda>r. filename r = ''a.jpg'' \<and> extract_image_bytes (image r) \<noteq> None \<and>
                extract_image_bytes (image r) \<noteq> Some None) (scanned_rows run4_table [''train-0.parquet''])
       = Some \<lparr>filename = ''a.jpg'', caption = None, image = Raw [0xFF, 1]\<rparr>
   \<and> (\<exists>e'. map_of (fst (aggregate run4_table [''train-0.parquet''])) ''a.jpg'' = Some e'
      \<and> Some (image_bytes e') = Some (Some [0xFF, 1]))
   \<and> length (scanned_rows run4_table [''train-0.parquet'']) = 3"
proof -
  let ?d = "[(''a.jpg'', \<lparr>prompt_text = Some ''first'', image_bytes = Some [0xFF, 0]\<rparr>)]"
  let ?row = "\<lparr>filename = ''a.jpg'', caption = None, image = Raw [0xFF, 1]\<rparr>"
  have h1: "map_of ?d ''a.jpg'' = Some \<lparr>prompt_text = Some ''first'', image_bytes = Some [0xFF, 0]\<rparr>
      \<and> image_bytes \<lparr>prompt_text = Some ''first'', image_bytes = Some [0xFF, 0]\<rparr> = Some [0xFF, 0]"
    by simp
  have h2: "find (\<lambda>r. filename r = ''a.jpg'' \<and> extract_image_bytes (image r) \<noteq> None \<and>
                extract_image_bytes (image r) \<noteq> Some None) (scanned_rows run4_table [''train-0.parquet''])
       = Some ?row"
    by code_simp
  have x: "extract_image_bytes (image ?row) = Some (Some [0xFF, 1])" by simp
  have n: "length (scanned_rows run4_table [''train-0.parquet'']) = 3" by code_simp
  from image_bytes_stored_once[of ?d "''a.jpg''"
      "\<lparr>prompt_text = Some ''first'', image_bytes = Some [0xFF, 0]\<rparr>" "[0xFF, 0]"
      _ "[]" run4_table "[''train-0.parquet'']" ?row] h1 h2 n
  show ?thesis unfolding x by blast
qed

text \<open>
  C9. A row whose image field is neither a dict with a key \<open>bytes\<close> nor a \<open>bytes\<close>
  value prints the warning, leaves the dict as it is and does not raise, so the loop
  goes on with the rows after it; and when such a row stands anywhere in a file whose
  rows before it did not raise, the rows after it are processed from the dict that the
  rows before it produced.
\<close>

theorem malformed_row_skipped:
  assumes "image r = Other t"
  shows "process_row r (d, out) = Inr (d, out @ [WarnNotBytes (filename r) t])
       \<and> process_rows (r # post) (d, out) = process_rows post (d, out @ [WarnNotBytes (filename r) t])
       \<and> (rt p = Inr (pre @ r # post) \<longrightarrow>
            process_file rt p st =
              (case process_rows pre st of
                 (st1, Some e) \<Rightarrow> except_clause p (st1, Some e)
               | (st1, None) \<Rightarrow>
                   except_clause p
                     (process_rows post (fst st1, snd st1 @ [WarnNotBytes (filename r) t]))))"
proof -
  have a: "\<And>d out. process_row r (d, out) = Inr (d, out @ [WarnNotBytes (filename r) t])"
    using assms by (simp add: process_row_def)
  have b: "process_rows (r # post) st1 =
      process_rows post (fst st1, snd st1 @ [WarnNotBytes (filename r) t])" for st1
    using a[of "fst st1" "snd st1"] by simp
  have c: "process_rows (pre @ r # post) st =
      (case process_rows pre st of
         (st1, Some e) \<Rightarrow> (st1, Some e)
       | (st1, None) \<Rightarrow> process_rows post (fst st1, snd st1 @ [WarnNotBytes (filename r) t]))"
    unfolding process_rows_append b by (simp split: prod.splits option.splits)
  have "rt p = Inr (pre @ r # post) \<longrightarrow>
            process_file rt p st =
              (case process_rows pre st of
                 (st1, Some e) \<Rightarrow> except_clause p (st1, Some e)
               | (st1, None) \<Rightarrow>
                   except_clause p
                     (process_rows post (fst st1, snd st1 @ [WarnNotBytes (filename r) t])))"
    using c by (auto simp: process_file_def split: prod.splits option.splits)
  with a b[of "(d, out)"] show ?thesis by simp
qed

text \<open>The second row of the first file of \<open>run2_table\<close> is malformed: the dict that the
  first row produced is unchanged by it, and the rows after it are processed.\<close>

theorem malformed_row_skipped_witness:
  "process_row \<lparr>filename = ''a.jpg'', caption = Some ''the longest caption, on a row that is skipped'',
                image = Other ''NoneType''\<rparr>
       ([(''a.jpg'', \<lparr>prompt_text = Some ''ab'', image_bytes = Some [0xFF, 1]\<rparr>)], [MsgStep1])
     = Inr ([(''a.jpg'', \<lparr>prompt_text = Some ''ab'', image_bytes = Some [0xFF, 1]\<rparr>)],
        [MsgStep1, WarnNotBytes ''a.jpg'' ''NoneType''])
   \<and> process_file run2_table ''train-0.parquet'' ([], [MsgStep1])
     = except_clause ''train-0.parquet'' (process_rows
         [\<lparr>filename = ''b.png'', caption = Some ''another image'', image = Raw [0x89, 7]\<rparr>,
          \<lparr>filename = ''a.jpg'', caption = Some ''abcd'', image = Envelope (Some [0xFF, 2])\<rparr>,
          \<lparr>filename = ''b.png'', caption = None, image = Raw [0x89, 8]\<rparr>,
          \<lparr>filename = ''a.jpg'', caption = Some ''a caption after the row that raises'',
            image = Raw [0xFF, 9]\<rparr>]
         ([(''a.jpg'', \<lparr>prompt_text = Some ''ab'', image_bytes = Some [0xFF, 1]\<rparr>)],
          [MsgStep1, WarnNotBytes ''a.jpg'' ''NoneType'']))
   \<and> fst (process_file run2_table ''train-0.parquet'' ([], [MsgStep1]))
     = [(''a.jpg'', \<lparr>prompt_text = Some ''abcd'', image_bytes = Some [0xFF, 1]\<rparr>),
        (''b.png'', \<lparr>prompt_text = Some ''another image'', image_bytes = Some [0x89, 7]\<rparr>)]"
proof -
  let ?first = "\<lparr>filename = ''a.jpg'', caption = Some ''ab'', image = Raw [0xFF, 1]\<rparr>"
  let ?bad = "\<lparr>filename = ''a.jpg'', caption = Some ''the longest caption, on a row that is skipped'',
              image = Other ''NoneType''\<rparr>"
  let ?post = "[\<lparr>filename = ''b.png'', caption = Some ''another image'', image = Raw [0x89, 7]\<rparr>,
          \<lparr>filename = ''a.jpg'', caption = Some ''abcd'', image = Envelope (Some [0xFF, 2])\<rparr>,
          \<lparr>filename = ''b.png'', caption = None, image = Raw [0x89, 8]\<rparr>,
          \<lparr>filename = ''a.jpg'', caption = Some ''a caption after the row that raises'',
            image = Raw [0xFF, 9]\<rparr>]"
  have h: "image ?bad = Other ''NoneType''" by simp
  have t: "run2_table ''train-0.parquet'' = Inr ([?first] @ ?bad # ?post)"
    by (simp add: run2_table_def)
  have pre: "process_rows [?first] ([], [MsgStep1])
      = (([(''a.jpg'', \<lparr>prompt_text = Some ''ab'', image_bytes = Some [0xFF, 1]\<rparr>)], [MsgStep1]), None)"
    by (simp add: process_row_def dd_getitem_def default_entry_def)
  have v: "fst (process_file run2_table ''train-0.parquet'' ([], [MsgStep1]))
     = [(''a.jpg'', \<lparr>prompt_text = Some ''abcd'', image_bytes = Some [0xFF, 1]\<rparr>),
        (''b.png'', \<lparr>prompt_text = Some ''another image'', image_bytes = Some [0x89, 7]\<rparr>)]"
    by code_simp
  note inst = malformed_row_skipped[OF h, of "[(''a.jpg'', \<lparr>prompt_text = Some ''ab'', image_bytes = Some [0xFF, 1]\<rparr>)]"
      "[MsgStep1]" ?post run2_table "''train-0.parquet''" "[?first]" "([], [MsgStep1])"]
  have c1: "process_row ?bad ([(''a.jpg'', \<lparr>prompt_text = Some ''ab'', image_bytes = Some [0xFF, 1]\<rparr>)], [MsgStep1])
     = Inr ([(''a.jpg'', \<lparr>prompt_text = Some ''ab'', image_bytes = Some [0xFF, 1]\<rparr>)],
        [MsgStep1, WarnNotBytes ''a.jpg'' ''NoneType''])"
    using inst[THEN conjunct1] by simp
  have "process_file run2_table ''train-0.parquet'' ([], [MsgStep1]) =
      (case process_rows [?first] ([], [MsgStep1]) of
         (st1, Some e) \<Rightarrow> except_clause ''train-0.parquet'' (st1, Some e)
       | (st1, None) \<Rightarrow>
           except_clause ''train-0.parquet''
             (process_rows ?post (fst st1, snd st1 @ [WarnNotBytes (filename ?bad) ''NoneType''])))"
    using inst[THEN conjunct2, THEN conjunct2] t by blast
  then have c2: "process_file run2_table ''train-0.parquet'' ([], [MsgStep1]) =
      except_clause ''train-0.parquet''
        (process_rows ?post ([(''a.jpg'', \<lparr>prompt_text = Some ''ab'', image_bytes = Some [0xFF, 1]\<rparr>)],
          [MsgStep1, WarnNotBytes ''a.jpg'' ''NoneType'']))"
    unfolding pre by simp
  from c1 c2 v show ?thesis by blast
qed

section \<open>The image validator\<close>

text \<open>The validator rejects exactly when one of the library calls it makes raises: the
  open, the integrity check, or, when the chosen format is \<open>jpeg\<close> and the mode is not
  \<open>RGB\<close>, the conversion or the save.\<close>

lemma rejected_iff:
  "fst (get_image_bytes_validate_and_dims P b fn) = None \<longleftrightarrow>
     (\<exists>e. Image_open P b = Inl e)
   \<or> (\<exists>img e. Image_open P b = Inr img \<and> img_verify P img = Some e)
   \<or> (\<exists>img e. Image_open P b = Inr img \<and> chosen_format P img = ''jpeg'' \<and>
         img_mode P img \<noteq> ''RGB'' \<and> img_convert P img ''RGB'' = Inl e)
   \<or> (\<exists>img img' e. Image_open P b = Inr img \<and> chosen_format P img = ''jpeg'' \<and>
         img_mode P img \<noteq> ''RGB'' \<and> img_convert P img ''RGB'' = Inr img' \<and>
         img_save P img' ''JPEG'' = Inl e)"
  by (auto simp: get_image_bytes_validate_and_dims_def handler_def Let_def
      split: sum.splits option.splits prod.splits exn.splits)

lemma lower_PNG: "lower ''PNG'' = ''png''"
  by (simp add: lower_def lower_char_def)

text \<open>
  C2. The code does not do what the claim says. For a payload that decodes, passes the
  integrity check and has a format outside \<open>jpeg\<close>, \<open>png\<close>, \<open>webp\<close>, the returned
  format is \<open>jpeg\<close>; but when the mode is \<open>RGB\<close> the returned bytes are the input bytes,
  not a JPEG encoding of the image: the re-encoding branch is taken only for a mode
  other than \<open>RGB\<close>.
\<close>

theorem unsupported_rgb_bytes_not_reencoded:
  assumes "Image_open P b = Inr img"
    and "img_verify P img = None"
    and "detected_format P img \<notin> set [''jpeg'', ''png'', ''webp'']"
    and "img_mode P img = ''RGB''"
  shows "get_image_bytes_validate_and_dims P b fn =
           (Some (b, ''jpeg'', fst (img_size P img), snd (img_size P img)),
            [WarnUnexpectedFormat (detected_format P img) fn])"
  using assms
  by (simp add: get_image_bytes_validate_and_dims_def chosen_format_def Let_def split: prod.splits)

text \<open>An RGB BMP: the bytes come back as they went in, under the name \<open>jpeg\<close>.\<close>

theorem bmp_rgb_bytes_not_reencoded:
  "get_image_bytes_validate_and_dims toy_pil [0x42, 0x4D, 1] ''x.bmp'' =
     (Some ([0x42, 0x4D, 1], ''jpeg'', 4, 3), [WarnUnexpectedFormat ''bmp'' ''x.bmp''])"
proof -
  let ?img = "\<lparr>t_format = Some ''BMP'', t_mode = ''RGB'', t_size = (4, 3), t_data = [0x4D, 1]\<rparr>"
  have h1: "Image_open toy_pil [0x42, 0x4D, 1] = Inr ?img"
    by (simp add: toy_pil_def toy_open_def)
  have h2: "img_verify toy_pil ?img = None"
    by (simp add: toy_pil_def toy_verify_def)
  have d: "detected_format toy_pil ?img = ''bmp''"
    by (simp add: detected_format_def toy_pil_def lower_def lower_char_def)
  have h3: "detected_format toy_pil ?img \<notin> set [''jpeg'', ''png'', ''webp'']"
    by (simp add: d)
  have h4: "img_mode toy_pil ?img = ''RGB''"
    by (simp add: toy_pil_def)
  have s: "img_size toy_pil ?img = (4, 3)"
    by (simp add: toy_pil_def)
  from unsupported_rgb_bytes_not_reencoded[OF h1 h2 h3 h4, of "''x.bmp''"] d s
  show ?thesis by simp
qed

text \<open>
  C5. A payload that decodes as a PNG (the library reports the format \<open>PNG\<close>), passes
  the integrity check and has the mode \<open>RGBA\<close> comes back unchanged, with the format
  \<open>png\<close> and the size the library reports.
\<close>

theorem rgba_png_passthrough:
  assumes "Image_open P b = Inr img"
    and "img_verify P img = None"
    and "img_format P img = Some ''PNG''"
    and "img_mode P img = ''RGBA''"
  shows "get_image_bytes_validate_and_dims P b fn =
           (Some (b, ''png'', fst (img_size P img), snd (img_size P img)), [])"
  using assms
  by (simp add: get_image_bytes_validate_and_dims_def detected_format_def chosen_format_def
      lower_PNG Let_def split: prod.splits)

theorem rgba_png_passthrough_witness:
  "get_image_bytes_validate_and_dims toy_pil [0x89, 0x50, 0x4E] ''a.png'' =
     (Some ([0x89, 0x50, 0x4E], ''png'', 4, 3), [])"
proof -
  let ?img = "\<lparr>t_format = Some ''PNG'', t_mode = ''RGBA'', t_size = (4, 3), t_data = [0x50, 0x4E]\<rparr>"
  have h1: "Image_open toy_pil [0x89, 0x50, 0x4E] = Inr ?img"
    by (simp add: toy_pil_def toy_open_def)
  have h2: "img_verify toy_pil ?img = None"
    by (simp add: toy_pil_def toy_verify_def)
  have h3: "img_format toy_pil ?img = Some ''PNG''"
    by (simp add: toy_pil_def)
  have h4: "img_mode toy_pil ?img = ''RGBA''"
    by (simp add: toy_pil_def)
  have s: "img_size toy_pil ?img = (4, 3)"
    by (simp add: toy_pil_def)
  from rgba_png_passthrough[OF h1 h2 h3 h4, of "''a.png''"] s
  show ?thesis by simp
qed

section \<open>Pass 2: the samples written\<close>

lemma written_write_entry:
  "written (write_entry P item st) =
     written st @ (case sample_of P item of None \<Rightarrow> [] | Some s \<Rightarrow> [s])"
  by (auto simp: write_entry_def sample_of_def split: prod.splits option.splits)

lemma written_write_entries:
  "written (write_entries P items st) = written st @ List.map_filter (sample_of P) items"
proof (induction items arbitrary: st)
  case Nil
  then show ?case by (simp add: List.map_filter_simps)
next
  case (Cons item items)
  then show ?case
    by (simp add: written_write_entry List.map_filter_simps split: option.splits)
qed

text \<open>The counter counts the samples written.\<close>

lemma total_write_entry:
  "total_images_processed (write_entry P item st) =
     total_images_processed st + (case sample_of P item of None \<Rightarrow> 0 | Some s \<Rightarrow> 1)"
  by (auto simp: write_entry_def sample_of_def split: prod.splits option.splits)

lemma total_write_entries:
  "total_images_processed (write_entries P items st) =
     total_images_processed st + length (List.map_filter (sample_of P) items)"
proof (induction items arbitrary: st)
  case Nil
  then show ?case by (simp add: List.map_filter_simps)
next
  case (Cons item items)
  then show ?case
    by (simp add: total_write_entry List.map_filter_simps split: option.splits)
qed

lemma sample_of_key: "sample_of P (fn, e) = Some s \<Longrightarrow> key s = fst (splitext fn)"
  by (auto simp: sample_of_def split: option.splits if_splits)

lemma sample_of_fields:
  assumes "sample_of P (fn, e) = Some s"
  shows "\<exists>ib p out. image_bytes e = Some ib \<and> prompt_text e = Some p \<and> p \<noteq> [] \<and>
           get_image_bytes_validate_and_dims P ib fn =
             (Some (image_payload s, image_ext s, width (json s), height (json s)), out) \<and>
           key s = fst (splitext fn) \<and> prompt (json s) = p"
  using assms
  by (auto simp: sample_of_def split: option.splits if_splits prod.splits)
    (metis surjective_pairing)

lemma keys_map_filter:
  "map key (List.map_filter (sample_of P) items) =
     map (\<lambda>item. fst (splitext (fst item))) (filter (\<lambda>item. sample_of P item \<noteq> None) items)"
proof (induction items)
  case Nil
  then show ?case by (simp add: List.map_filter_simps)
next
  case (Cons item items)
  obtain fn e where i: "item = (fn, e)" by (cases item)
  show ?case using Cons sample_of_key[of P fn e] i
    by (auto simp: List.map_filter_simps split: option.splits)
qed

lemma distinct_keys:
  assumes "distinct (map fst items)" "inj_on (\<lambda>fn. fst (splitext fn)) (fst ` set items)"
  shows "distinct (map key (List.map_filter (sample_of P) items))"
proof -
  let ?fs = "filter (\<lambda>item. sample_of P item \<noteq> None) items"
  have d: "distinct (map fst ?fs)" using assms(1) by (rule distinct_map_filter)
  have "inj_on (\<lambda>fn. fst (splitext fn)) (set (map fst ?fs))"
    using assms(2) by (rule inj_on_subset) auto
  with d have "distinct (map (\<lambda>fn. fst (splitext fn)) (map fst ?fs))"
    by (simp only: distinct_map)
  then show ?thesis by (simp add: keys_map_filter comp_def)
qed

text \<open>The key and the extension together are the filename.\<close>

lemma splitext_append: "fst (splitext p) @ snd (splitext p) = p"
  by (simp add: splitext_def Let_def)

text \<open>
  C4, as amended. For every run, every sample handed to the writer comes from an entry
  of the dict with bytes and a non-empty prompt that the validator accepted: its key is
  the filename of the entry without the extension, its image field is named by the
  returned format and holds the returned bytes, and its metadata hold the prompt of the
  entry and the returned width and height. The key drops the extension, and nothing in
  the script keeps two filenames from sharing it; the filenames of the dict are
  distinct, so when no two of them have the same name without extension, no two samples
  handed to the writer share a key.
\<close>

theorem written_samples_and_keys:
  "(\<forall>s \<in> set (written (write_entries P (fst (aggregate rt files))
            \<lparr>written = [], total_images_processed = 0, printed = out\<rparr>)).
       \<exists>fn e ib p msgs. (fn, e) \<in> set (fst (aggregate rt files)) \<and>
          image_bytes e = Some ib \<and> prompt_text e = Some p \<and> p \<noteq> [] \<and>
          get_image_bytes_validate_and_dims P ib fn =
            (Some (image_payload s, image_ext s, width (json s), height (json s)), msgs) \<and>
          key s = fst (splitext fn) \<and> key s @ snd (splitext fn) = fn \<and>
          prompt (json s) = p)
   \<and> (inj_on (\<lambda>fn. fst (splitext fn)) (fst ` set (fst (aggregate rt files))) \<longrightarrow>
        distinct (map key (written (write_entries P (fst (aggregate rt files))
            \<lparr>written = [], total_images_processed = 0, printed = out\<rparr>))))"
proof (intro conjI ballI impI)
  assume "inj_on (\<lambda>fn. fst (splitext fn)) (fst ` set (fst (aggregate rt files)))"
  from distinct_keys[OF aggregate_distinct this, of P]
  show "distinct (map key (written (write_entries P (fst (aggregate rt files))
            \<lparr>written = [], total_images_processed = 0, printed = out\<rparr>)))"
    by (simp add: written_write_entries)
next
  fix s
  assume "s \<in> set (written (write_entries P (fst (aggregate rt files))
            \<lparr>written = [], total_images_processed = 0, printed = out\<rparr>))"
  then obtain item where i: "item \<in> set (fst (aggregate rt files))" "sample_of P item = Some s"
    by (auto simp: written_write_entries List.map_filter_def)
  obtain fn e where fe: "item = (fn, e)" by (cases item)
  from sample_of_fields[of P fn e s] i fe splitext_append[of fn]
  show "\<exists>fn e ib p msgs. (fn, e) \<in> set (fst (aggregate rt files)) \<and>
          image_bytes e = Some ib \<and> prompt_text e = Some p \<and> p \<noteq> [] \<and>
          get_image_bytes_validate_and_dims P ib fn =
            (Some (image_payload s, image_ext s, width (json s), height (json s)), msgs) \<and>
          key s = fst (splitext fn) \<and> key s @ snd (splitext fn) = fn \<and>
          prompt (json s) = p"
    by (metis (no_types, lifting))
qed

text \<open>The two files of \<open>run2_table\<close> hold the filenames \<open>a.jpg\<close> and \<open>b.png\<close>; the
  samples written have the keys \<open>a\<close> and \<open>b\<close>.\<close>

theorem written_samples_and_keys_witness:
  "inj_on (\<lambda>fn. fst (splitext fn))
      (fst ` set (fst (aggregate run2_table [''train-0.parquet'', ''train-1.parquet''])))
   \<and> distinct (map key (written (write_entries toy_pil
         (fst (aggregate run2_table [''train-0.parquet'', ''train-1.parquet'']))
         \<lparr>written = [], total_images_processed = 0, printed = []\<rparr>)))
   \<and> written (write_entries toy_pil
         (fst (aggregate run2_table [''train-0.parquet'', ''train-1.parquet'']))
         \<lparr>written = [], total_images_processed = 0, printed = []\<rparr>)
       = [\<lparr>key = ''a'', image_ext = ''jpeg'', image_payload = [0xFF, 1],
           json = \<lparr>prompt = ''abcd'', width = 4, height = 3\<rparr>\<rparr>,
          \<lparr>key = ''b'', image_ext = ''png'', image_payload = [0x89, 7],
           json = \<lparr>prompt = ''another image'', width = 4, height = 3\<rparr>\<rparr>]"
proof -
  have k: "map fst (fst (aggregate run2_table [''train-0.parquet'', ''train-1.parquet'']))
      = [''a.jpg'', ''b.png'']" by code_simp
  have a: "fst (splitext ''a.jpg'') = ''a''" by code_simp
  have b: "fst (splitext ''b.png'') = ''b''" by code_simp
  have "fst ` set (fst (aggregate run2_table [''train-0.parquet'', ''train-1.parquet'']))
      = {''a.jpg'', ''b.png''}"
    using arg_cong[OF k, of set] by simp
  then have h: "inj_on (\<lambda>fn. fst (splitext fn))
      (fst ` set (fst (aggregate run2_table [''train-0.parquet'', ''train-1.parquet''])))"
    by (simp add: a b)
  have v: "written (write_entries toy_pil
         (fst (aggregate run2_table [''train-0.parquet'', ''train-1.parquet'']))
         \<lparr>written = [], total_images_processed = 0, printed = []\<rparr>)
       = [\<lparr>key = ''a'', image_ext = ''jpeg'', image_payload = [0xFF, 1],
           json = \<lparr>prompt = ''abcd'', width = 4, height = 3\<rparr>\<rparr>,
          \<lparr>key = ''b'', image_ext = ''png'', image_payload = [0x89, 7],
           json = \<lparr>prompt = ''another image'', width = 4, height = 3\<rparr>\<rparr>]"
    by code_simp
  from written_samples_and_keys[of toy_pil run2_table "[''train-0.parquet'', ''train-1.parquet'']" "[]",
      THEN conjunct2] h
  have d: "distinct (map key (written (write_entries toy_pil
         (fst (aggregate run2_table [''train-0.parquet'', ''train-1.parquet'']))
         \<lparr>written = [], total_images_processed = 0, printed = []\<rparr>)))"
    by (rule mp)
  show ?thesis by (intro conjI) (rule h d v)+
qed

text \<open>C4 as stated fails: \<open>a.jpg\<close> and \<open>a.png\<close> are two filenames, both images are
  valid, and both samples are written under the key \<open>a\<close>.\<close>

theorem same_stem_same_key:
  "map key (written (write_entries toy_pil (fst (aggregate run3_table [''train-0.parquet'']))
      \<lparr>written = [], total_images_processed = 0, printed = []\<rparr>)) = [''a'', ''a'']
   \<and> \<not> distinct (map key (written (write_entries toy_pil (fst (aggregate run3_table [''train-0.parquet'']))
      \<lparr>written = [], total_images_processed = 0, printed = []\<rparr>)))"
proof -
  have v: "map key (written (write_entries toy_pil (fst (aggregate run3_table [''train-0.parquet'']))
      \<lparr>written = [], total_images_processed = 0, printed = []\<rparr>)) = [''a'', ''a'']"
    by code_simp
  show ?thesis unfolding v by simp
qed

text \<open>
  C6. When a library call of the validator raises (the open, the integrity check, or,
  where the code converts, the conversion or the save), the validator returns the
  rejection. For an entry that holds such bytes the loop body writes nothing and leaves
  the counter as it is, and the loop goes on with the next entry from a state that
  differs in the printed messages only.
\<close>

theorem rejected_payload_not_written:
  assumes "(\<exists>e. Image_open P b = Inl e)
   \<or> (\<exists>img e. Image_open P b = Inr img \<and> img_verify P img = Some e)
   \<or> (\<exists>img e. Image_open P b = Inr img \<and> chosen_format P img = ''jpeg'' \<and>
         img_mode P img \<noteq> ''RGB'' \<and> img_convert P img ''RGB'' = Inl e)
   \<or> (\<exists>img img' e. Image_open P b = Inr img \<and> chosen_format P img = ''jpeg'' \<and>
         img_mode P img \<noteq> ''RGB'' \<and> img_convert P img ''RGB'' = Inr img' \<and>
         img_save P img' ''JPEG'' = Inl e)"
    and "image_bytes data = Some b"
  shows "fst (get_image_bytes_validate_and_dims P b base_filename) = None
       \<and> written (write_entry P (base_filename, data) st) = written st
       \<and> total_images_processed (write_entry P (base_filename, data) st) = total_images_processed st
       \<and> (\<exists>msgs. write_entries P ((base_filename, data) # items) st =
             write_entries P items (st\<lparr>printed := printed st @ msgs\<rparr>))"
proof -
  have r: "fst (get_image_bytes_validate_and_dims P b base_filename) = None"
    using assms(1) by (simp only: rejected_iff)
  then obtain out where o: "get_image_bytes_validate_and_dims P b base_filename = (None, out)"
    by (cases "get_image_bytes_validate_and_dims P b base_filename") auto
  have "write_entry P (base_filename, data) st =
      st\<lparr>printed := printed st @
        (if prompt_text data = None \<or> prompt_text data = Some [] then [WarnMissing base_filename]
         else out)\<rparr>"
    using assms(2) o by (auto simp: write_entry_def split: option.splits)
  then show ?thesis using r by auto
qed

text \<open>A payload that cannot be identified, and one that opens and fails the integrity
  check: neither is written, and the valid entry after it is.\<close>

theorem rejected_payload_not_written_witness:
  "fst (get_image_bytes_validate_and_dims toy_pil [0x01, 0x02] ''c.jpg'') = None
   \<and> written (write_entry toy_pil (''c.jpg'', \<lparr>prompt_text = Some ''a cat'', image_bytes = Some [0x01, 0x02]\<rparr>)
        \<lparr>written = [toy_sample], total_images_processed = 1, printed = []\<rparr>) = [toy_sample]
   \<and> total_images_processed
        (write_entry toy_pil (''c.jpg'', \<lparr>prompt_text = Some ''a cat'', image_bytes = Some [0x01, 0x02]\<rparr>)
        \<lparr>written = [toy_sample], total_images_processed = 1, printed = []\<rparr>) = 1
   \<and> (\<exists>msgs. write_entries toy_pil
         [(''c.jpg'', \<lparr>prompt_text = Some ''a cat'', image_bytes = Some [0x01, 0x02]\<rparr>),
          (''d.png'', \<lparr>prompt_text = Some ''a dog'', image_bytes = Some [0x89, 0x50]\<rparr>)]
         \<lparr>written = [toy_sample], total_images_processed = 1, printed = []\<rparr>
       = write_entries toy_pil
         [(''d.png'', \<lparr>prompt_text = Some ''a dog'', image_bytes = Some [0x89, 0x50]\<rparr>)]
         (\<lparr>written = [toy_sample], total_images_processed = 1, printed = []\<rparr>
            \<lparr>printed := [] @ msgs\<rparr>))
   \<and> total_images_processed (write_entries toy_pil
         [(''c.jpg'', \<lparr>prompt_text = Some ''a cat'', image_bytes = Some [0x01, 0x02]\<rparr>),
          (''t.jpg'', \<lparr>prompt_text = Some ''a cow'', image_bytes = Some [0xFF, 0x00]\<rparr>),
          (''d.png'', \<lparr>prompt_text = Some ''a dog'', image_bytes = Some [0x89, 0x50]\<rparr>)]
         \<lparr>written = [toy_sample], total_images_processed = 1, printed = []\<rparr>) = 2"
proof -
  let ?data = "\<lparr>prompt_text = Some ''a cat'', image_bytes = Some [0x01, 0x02]\<rparr>"
  let ?st = "\<lparr>written = [toy_sample], total_images_processed = 1, printed = []\<rparr>"
  have "Image_open toy_pil [0x01, 0x02] = Inl UnidentifiedImageError"
    by (simp add: toy_pil_def toy_open_def)
  then have h1: "(\<exists>e. Image_open toy_pil [0x01, 0x02] = Inl e)
   \<or> (\<exists>img e. Image_open toy_pil [0x01, 0x02] = Inr img \<and> img_verify toy_pil img = Some e)
   \<or> (\<exists>img e. Image_open toy_pil [0x01, 0x02] = Inr img \<and> chosen_format toy_pil img = ''jpeg'' \<and>
         img_mode toy_pil img \<noteq> ''RGB'' \<and> img_convert toy_pil img ''RGB'' = Inl e)
   \<or> (\<exists>img img' e. Image_open toy_pil [0x01, 0x02] = Inr img \<and> chosen_format toy_pil img = ''jpeg'' \<and>
         img_mode toy_pil img \<noteq> ''RGB'' \<and> img_convert toy_pil img ''RGB'' = Inr img' \<and>
         img_save toy_pil img' ''JPEG'' = Inl e)"
    by blast
  have h2: "image_bytes ?data = Some [0x01, 0x02]" by simp
  have v: "total_images_processed (write_entries toy_pil
         [(''c.jpg'', \<lparr>prompt_text = Some ''a cat'', image_bytes = Some [0x01, 0x02]\<rparr>),
          (''t.jpg'', \<lparr>prompt_text = Some ''a cow'', image_bytes = Some [0xFF, 0x00]\<rparr>),
          (''d.png'', \<lparr>prompt_text = Some ''a dog'', image_bytes = Some [0x89, 0x50]\<rparr>)]
         \<lparr>written = [toy_sample], total_images_processed = 1, printed = []\<rparr>) = 2"
    by code_simp
  from rejected_payload_not_written[OF h1 h2, of "''c.jpg''" ?st
      "[(''d.png'', \<lparr>prompt_text = Some ''a dog'', image_bytes = Some [0x89, 0x50]\<rparr>)]"] v
  show ?thesis by simp
qed

text \<open>
  C10. An entry whose prompt is the empty string is skipped with the warning, whatever
  its bytes and whatever the validator would return for them: nothing is written, the
  counter stays, and the loop goes on with the next entry.
\<close>

theorem empty_prompt_skipped:
  assumes "prompt_text data = Some []"
  shows "write_entry P (base_filename, data) st = st\<lparr>printed := printed st @ [WarnMissing base_filename]\<rparr>
       \<and> written (write_entry P (base_filename, data) st) = written st
       \<and> total_images_processed (write_entry P (base_filename, data) st) = total_images_processed st
       \<and> write_entries P ((base_filename, data) # items) st =
           write_entries P items (st\<lparr>printed := printed st @ [WarnMissing base_filename]\<rparr>)"
  using assms by (simp add: write_entry_def split: option.splits)

text \<open>The bytes of the entry are a valid JPEG, which the validator accepts.\<close>

theorem empty_prompt_skipped_witness:
  "fst (get_image_bytes_validate_and_dims toy_pil [0xFF, 0x01] ''e.jpg'')
     = Some ([0xFF, 0x01], ''jpeg'', 4, 3)
   \<and> write_entry toy_pil (''e.jpg'', \<lparr>prompt_text = Some [], image_bytes = Some [0xFF, 0x01]\<rparr>)
        \<lparr>written = [toy_sample], total_images_processed = 1, printed = []\<rparr>
     = \<lparr>written = [toy_sample], total_images_processed = 1, printed = [WarnMissing ''e.jpg'']\<rparr>
   \<and> write_entries toy_pil
        [(''e.jpg'', \<lparr>prompt_text = Some [], image_bytes = Some [0xFF, 0x01]\<rparr>),
         (''d.png'', \<lparr>prompt_text = Some ''a dog'', image_bytes = Some [0x89, 0x50]\<rparr>)]
        \<lparr>written = [toy_sample], total_images_processed = 1, printed = []\<rparr>
     = write_entries toy_pil
        [(''d.png'', \<lparr>prompt_text = Some ''a dog'', image_bytes = Some [0x89, 0x50]\<rparr>)]
        \<lparr>written = [toy_sample], total_images_processed = 1, printed = [WarnMissing ''e.jpg'']\<rparr>"
proof -
  let ?data = "\<lparr>prompt_text = Some [], image_bytes = Some [0xFF, 0x01]\<rparr>"
  let ?st = "\<lparr>written = [toy_sample], total_images_processed = 1, printed = []\<rparr>"
  have h: "prompt_text ?data = Some []" by simp
  have v: "fst (get_image_bytes_validate_and_dims toy_pil [0xFF, 0x01] ''e.jpg'')
     = Some ([0xFF, 0x01], ''jpeg'', 4, 3)" by code_simp
  from empty_prompt_skipped[OF h, of toy_pil "''e.jpg''" ?st
      "[(''d.png'', \<lparr>prompt_text = Some ''a dog'', image_bytes = Some [0x89, 0x50]\<rparr>)]"] v
  show ?thesis by simp
qed

section \<open>The shard writer\<close>

subsection \<open>The file name of a shard\<close>

lemma path_join_append:
  "path_join dir (pre @ ''-'' @ t) = path_join dir (pre @ ''-'') @ t"
  by (cases pre) (simp_all add: path_join_def)

lemma percent_free_join:
  assumes "CHR ''%'' \<notin> set dir" "CHR ''%'' \<notin> set pre"
  shows "CHR ''%'' \<notin> set (path_join dir (pre @ ''-''))"
  using assms by (auto simp: path_join_def)

text \<open>When neither the directory nor the prefix holds a \<open>%\<close>, the only directive of the
  pattern of line 73 is \<open>%06d\<close>, and the file name of shard \<open>n\<close> is the pattern with the
  padded number in its place.\<close>

lemma percent_int_shard_pattern:
  assumes "CHR ''%'' \<notin> set dir" "CHR ''%'' \<notin> set pre"
  shows "percent_int other (shard_pattern dir pre) n =
           Inr (path_join dir (pre @ ''-'' @ fmt_06d n @ ''.tar''))"
proof -
  let ?x = "path_join dir (pre @ ''-'')"
  have x: "\<And>c. c \<in> set ?x \<Longrightarrow> c \<noteq> CHR ''%''"
    using percent_free_join[OF assms] by auto
  have p: "shard_pattern dir pre = ?x @ ''%06d.tar''"
    using path_join_append[of dir pre "''%06d.tar''"] by (simp add: shard_pattern_def)
  have t: "takeWhile (\<lambda>c. c \<noteq> CHR ''%'') (?x @ ''%06d.tar'') = ?x"
    using x by (simp add: takeWhile_append2)
  have d: "dropWhile (\<lambda>c. c \<noteq> CHR ''%'') (?x @ ''%06d.tar'') = ''%06d.tar''"
    using x by (simp add: dropWhile_append2)
  show ?thesis
    unfolding p percent_int_def t d Let_def
    using path_join_append[of dir pre "fmt_06d n @ ''.tar''"] by simp
qed

subsection \<open>The number in the file name\<close>

lemma length_decimal: "0 < k \<Longrightarrow> n < 10 ^ k \<Longrightarrow> length (decimal n) \<le> k"
proof (induction k arbitrary: n)
  case 0
  then show ?case by simp
next
  case (Suc k)
  show ?case
  proof (cases "n < 10")
    case True
    then show ?thesis by (simp add: decimal.simps[of n])
  next
    case False
    then have k: "0 < k" using Suc.prems by (cases k) auto
    have "n div 10 < 10 ^ k" using Suc.prems(2) by (simp add: less_mult_imp_div_less mult.commute)
    from Suc.IH[OF k this] False show ?thesis by (simp add: decimal.simps[of n])
  qed
qed

lemma length_fmt_06d: "n < 1000000 \<Longrightarrow> length (fmt_06d n) = 6"
  using length_decimal[of 6 n] by (simp add: fmt_06d_def)

lemma length_fmt_06d_ge: "6 \<le> length (fmt_06d n)"
  by (simp add: fmt_06d_def)

lemma fmt_06d_small: "fmt_06d 0 = ''000000''" "fmt_06d 1 = ''000001''" "fmt_06d 2 = ''000002''"
  by code_simp+

lemma fmt_06d_Suc_0: "fmt_06d (Suc 0) = ''000001''"
  using fmt_06d_small(2) by simp

lemma digit_cases:
  assumes "k < 10"
  shows "k = 0 \<or> k = 1 \<or> k = 2 \<or> k = 3 \<or> k = 4 \<or> k = 5 \<or> k = 6 \<or> k = 7 \<or> k = 8 \<or> k = (9::nat)"
  using assms by arith

lemma digit_value_digit_char: "k < 10 \<Longrightarrow> digit_value (digit_char k) = k"
  using digit_cases[of k] by (auto simp: digit_value_def digit_char_def)

lemma digit_char_digit: "k < 10 \<Longrightarrow> digit_char k \<in> set ''0123456789''"
  using digit_cases[of k] by (auto simp: digit_char_def)

lemma decimal_value_snoc: "decimal_value (s @ [c]) = 10 * decimal_value s + digit_value c"
  by (simp add: decimal_value_def)

lemma decimal_value_decimal: "decimal_value (decimal n) = n"
proof (induction n rule: decimal.induct)
  case (1 n)
  show ?case
  proof (cases "n < 10")
    case True
    then show ?thesis
      by (simp add: decimal.simps[of n] decimal_value_def digit_value_digit_char)
  next
    case False
    with 1 show ?thesis
      by (simp add: decimal.simps[of n] decimal_value_snoc digit_value_digit_char)
  qed
qed

lemma set_decimal: "set (decimal n) \<subseteq> set ''0123456789''"
proof (induction n rule: decimal.induct)
  case (1 n)
  show ?case
  proof (cases "n < 10")
    case True
    then show ?thesis using digit_char_digit[of n] by (simp add: decimal.simps[of n])
  next
    case False
    with 1 digit_char_digit[of "n mod 10"] show ?thesis by (simp add: decimal.simps[of n])
  qed
qed

lemma decimal_value_zeros: "foldl (\<lambda>a c. 10 * a + digit_value c) 0 (replicate k CHR ''0'') = 0"
  by (induction k) (simp_all add: digit_value_def)

text \<open>The padded number is made of decimal digits and denotes the number.\<close>

lemma decimal_value_fmt_06d: "decimal_value (fmt_06d n) = n"
  using decimal_value_decimal[of n]
  by (simp add: fmt_06d_def decimal_value_def decimal_value_zeros)

lemma set_fmt_06d: "set (fmt_06d n) \<subseteq> set ''0123456789''"
  using set_decimal[of n] by (auto simp: fmt_06d_def)

subsection \<open>The invariant of the writer\<close>

lemma sw_inv_init:
  "0 < N \<Longrightarrow> \<exists>w. ShardWriter (\<lambda>k. Inr (nm k)) N = Inr w \<and> sw_inv nm N [] w"
  by (simp add: sw_inv_def ShardWriter_def)

lemma sw_inv_write:
  assumes "0 < N" "sw_inv nm N xs w"
  shows "\<exists>w'. sw_write w s = Inr w' \<and> sw_inv nm N (xs @ [s]) w'"
proof (cases "int (length (current w)) \<ge> maxcount w")
  case True
  then have full: "int (length (current w)) = N" using assms(2) by (simp add: sw_inv_def)
  have n: "name_of w (shard w) = Inr (nm (shard w))" using assms(2) by (simp add: sw_inv_def)
  have w: "sw_write w s =
      Inr (w\<lparr>closed := closed w @ [(fname w, current w)], fname := nm (shard w),
              current := [s], shard := shard w + 1\<rparr>)"
    using True n by (simp add: sw_write_def next_stream_def)
  show ?thesis unfolding w using assms full
    by (auto simp: sw_inv_def)
next
  case False
  then have w: "sw_write w s = Inr (w\<lparr>current := current w @ [s]\<rparr>)"
    by (simp add: sw_write_def)
  show ?thesis unfolding w using assms False
    by (auto simp: sw_inv_def)
qed

lemma sw_inv_write_all:
  assumes "0 < N" "sw_inv nm N xs w"
  shows "\<exists>w'. sw_write_all w ys = Inr w' \<and> sw_inv nm N (xs @ ys) w'"
  using assms(2)
proof (induction ys arbitrary: xs w)
  case Nil
  then show ?case by simp
next
  case (Cons s ss)
  from sw_inv_write[OF assms(1) Cons.prems, of s]
  obtain w1 where w1: "sw_write w s = Inr w1" "sw_inv nm N (xs @ [s]) w1" by auto
  from Cons.IH[OF w1(2)] w1(1) show ?case by simp
qed

lemma length_concat_full:
  "\<forall>sh \<in> set cl. length (snd sh) = n \<Longrightarrow> length (concat (map snd cl)) = length cl * n"
  by (induction cl) auto

lemma shards_general:
  assumes "sw_inv nm N xs w"
  shows "(\<forall>sh \<in> set (sw_close w). int (length (snd sh)) \<le> N)
     \<and> concat (map snd (sw_close w)) = xs
     \<and> map fst (sw_close w) = map nm [0..<length (sw_close w)]"
  using assms by (auto simp: sw_inv_def sw_close_def)

lemma shards_25000:
  assumes inv: "sw_inv nm 10000 xs w" and len: "length xs = 25000"
  shows "sw_close w =
     [(nm 0, take 10000 xs), (nm 1, take 10000 (drop 10000 xs)), (nm 2, drop 20000 xs)]"
proof -
  have full: "\<forall>sh \<in> set (closed w). length (snd sh) = 10000"
    using inv by (auto simp: sw_inv_def)
  have cat: "concat (map snd (closed w)) @ current w = xs" using inv by (simp add: sw_inv_def)
  have "length (concat (map snd (closed w))) + length (current w) = 25000"
    using arg_cong[OF cat, of length] len by simp
  then have sum: "length (closed w) * 10000 + length (current w) = 25000"
    using length_concat_full[OF full] by simp
  have le: "length (current w) \<le> 10000" using inv by (simp add: sw_inv_def)
  have "xs \<noteq> []" using len by auto
  then have pos: "0 < length (current w)" using inv by (simp add: sw_inv_def)
  have k: "length (closed w) = 2" using sum le pos by arith
  then obtain c0 c1 where cl: "closed w = [c0, c1]"
    by (auto simp: numeral_2_eq_2 length_Suc_conv)
  have names: "fst c0 = nm 0" "fst c1 = nm 1" "fname w = nm 2"
    using inv cl by (auto simp: sw_inv_def numeral_2_eq_2)
  have l: "length (snd c0) = 10000" "length (snd c1) = 10000" using full cl by auto
  have xs: "xs = snd c0 @ snd c1 @ current w" using cat cl by simp
  have t0: "take 10000 xs = snd c0" using l by (subst xs) simp
  have t1: "take 10000 (drop 10000 xs) = snd c1" using l by (subst xs) simp
  have t2: "drop 20000 xs = current w" using l by (subst xs) simp
  have "c0 = (nm 0, take 10000 xs)" "c1 = (nm 1, take 10000 (drop 10000 xs))"
    using names t0 t1 by (auto simp: prod_eq_iff)
  then show ?thesis using cl names t2 by (simp add: sw_close_def)
qed

subsection \<open>The writer in a call of the conversion\<close>

lemma convert_returns:
  assumes "0 < N" "CHR ''%'' \<notin> set dir" "CHR ''%'' \<notin> set pre" "makedirs E dir = None"
  shows "\<exists>oc w. convert_parquet_to_webdataset_with_dims E files dir pre N = Inr oc \<and>
           shard_files oc = sw_close w \<and>
           sw_inv (\<lambda>k. path_join dir (pre @ ''-'' @ fmt_06d k @ ''.tar'')) N
             (written (second_pass E files)) w"
proof -
  let ?nm = "\<lambda>k. path_join dir (pre @ ''-'' @ fmt_06d k @ ''.tar'')"
  have n: "percent_int (percent_other E) (shard_pattern dir pre) = (\<lambda>k. Inr (?nm k))"
    using percent_int_shard_pattern[OF assms(2,3)] by (intro ext) simp
  from sw_inv_init[OF assms(1), of ?nm]
  obtain w0 where w0: "ShardWriter (\<lambda>k. Inr (?nm k)) N = Inr w0" "sw_inv ?nm N [] w0" by auto
  from sw_inv_write_all[OF assms(1) w0(2), of "written (second_pass E files)"]
  obtain w where w: "sw_write_all w0 (written (second_pass E files)) = Inr w"
    "sw_inv ?nm N (written (second_pass E files)) w" by auto
  let ?oc = "\<lparr>stdout = printed (second_pass E files) @
              [MsgFinished, MsgProcessed (total_images_processed (second_pass E files)), MsgSaved dir],
            dirs_created = [dir], shard_files = sw_close w\<rparr>"
  have c: "convert_parquet_to_webdataset_with_dims E files dir pre N = Inr ?oc"
    using assms(4) w0(1) w(1)
    by (simp add: convert_parquet_to_webdataset_with_dims_def n Let_def)
  have f: "shard_files ?oc = sw_close w" by simp
  from c f w(2) show ?thesis by blast
qed

text \<open>
  C7. For a call of the conversion with a positive shard size N, a directory that can
  be made, and a directory and a prefix without \<open>%\<close>: the call returns; if it handed
  25000 samples to the writer and N is 10000, the shard files are exactly three,
  numbered 000000, 000001 and 000002, and hold the first 10000, the next 10000 and the
  last 5000 of these samples; in general no shard has more than N samples, the shards
  in order hold the samples in the order they were handed over, each sample whole and
  once, and the k-th file (from 0) carries the number k in its name, as decimal digits
  padded with zeros to at least six characters, exactly six below a million.
\<close>

theorem shards_of_run:
  assumes "0 < N" "CHR ''%'' \<notin> set dir" "CHR ''%'' \<notin> set pre" "makedirs E dir = None"
  shows "\<exists>oc. convert_parquet_to_webdataset_with_dims E files dir pre N = Inr oc
     \<and> (N = 10000 \<and> length (written (second_pass E files)) = 25000 \<longrightarrow>
          shard_files oc =
            [(path_join dir (pre @ ''-000000.tar''), take 10000 (written (second_pass E files))),
             (path_join dir (pre @ ''-000001.tar''),
                take 10000 (drop 10000 (written (second_pass E files)))),
             (path_join dir (pre @ ''-000002.tar''), drop 20000 (written (second_pass E files)))])
     \<and> (\<forall>sh \<in> set (shard_files oc). int (length (snd sh)) \<le> N)
     \<and> concat (map snd (shard_files oc)) = written (second_pass E files)
     \<and> map fst (shard_files oc) =
         map (\<lambda>k. path_join dir (pre @ ''-'' @ fmt_06d k @ ''.tar'')) [0..<length (shard_files oc)]
     \<and> decimal_value (fmt_06d n) = n
     \<and> set (fmt_06d n) \<subseteq> set ''0123456789''
     \<and> 6 \<le> length (fmt_06d n)
     \<and> (n < 1000000 \<longrightarrow> length (fmt_06d n) = 6)"
proof -
  let ?nm = "\<lambda>k. path_join dir (pre @ ''-'' @ fmt_06d k @ ''.tar'')"
  let ?W = "written (second_pass E files)"
  from convert_returns[OF assms, of files]
  obtain oc w where oc: "convert_parquet_to_webdataset_with_dims E files dir pre N = Inr oc"
    "shard_files oc = sw_close w" "sw_inv ?nm N ?W w" by blast
  have a: "N = 10000 \<and> length ?W = 25000 \<longrightarrow>
          shard_files oc =
            [(path_join dir (pre @ ''-000000.tar''), take 10000 ?W),
             (path_join dir (pre @ ''-000001.tar''), take 10000 (drop 10000 ?W)),
             (path_join dir (pre @ ''-000002.tar''), drop 20000 ?W)]"
  proof
    assume h: "N = 10000 \<and> length ?W = 25000"
    then have "sw_inv ?nm 10000 ?W w" using oc(3) by simp
    from shards_25000[OF this] h show "shard_files oc =
            [(path_join dir (pre @ ''-000000.tar''), take 10000 ?W),
             (path_join dir (pre @ ''-000001.tar''), take 10000 (drop 10000 ?W)),
             (path_join dir (pre @ ''-000002.tar''), drop 20000 ?W)]"
      unfolding oc(2) by (simp add: fmt_06d_small fmt_06d_Suc_0)
  qed
  have b: "(\<forall>sh \<in> set (shard_files oc). int (length (snd sh)) \<le> N)
     \<and> concat (map snd (shard_files oc)) = ?W
     \<and> map fst (shard_files oc) = map ?nm [0..<length (shard_files oc)]"
    using shards_general[OF oc(3)] unfolding oc(2) .
  have c: "decimal_value (fmt_06d n) = n \<and> set (fmt_06d n) \<subseteq> set ''0123456789''
     \<and> 6 \<le> length (fmt_06d n) \<and> (n < 1000000 \<longrightarrow> length (fmt_06d n) = 6)"
    using decimal_value_fmt_06d set_fmt_06d length_fmt_06d_ge length_fmt_06d by blast
  from oc(1) a b c show ?thesis by blast
qed

subsection \<open>A call that writes 25000 samples\<close>

lemma update_append_fresh:
  "k \<notin> fst ` set d \<Longrightarrow> AList.update k v (d @ [(k, v0)]) = d @ [(k, v)]"
  by (induction d) auto

lemma fresh_rows_appended:
  assumes "distinct (map filename rs)" "filename ` set rs \<inter> fst ` set d = {}"
    and "\<forall>r \<in> set rs. extract_image_bytes (image r) \<noteq> None"
  shows "process_rows rs (d, out) =
           ((d @ map (\<lambda>r. (filename r,
                 \<lparr>prompt_text = caption r, image_bytes = the (extract_image_bytes (image r))\<rparr>)) rs,
             out), None)"
  using assms
proof (induction rs arbitrary: d)
  case Nil
  then show ?case by simp
next
  case (Cons r rs)
  let ?e = "\<lparr>prompt_text = caption r, image_bytes = the (extract_image_bytes (image r))\<rparr>"
  have k: "filename r \<notin> fst ` set d" using Cons.prems(2) by auto
  then have "map_of d (filename r) = None" by (simp add: map_of_eq_None_iff)
  then have s: "process_row r (d, out) = Inr (d @ [(filename r, ?e)], out)"
    using Cons.prems(3) update_append_fresh[OF k]
    by (auto simp: process_row_def dd_getitem_def default_entry_def)
  have "filename ` set rs \<inter> fst ` set (d @ [(filename r, ?e)]) = {}"
    using Cons.prems(1,2) by auto
  from Cons.IH[OF _ this] Cons.prems(1,3) s show ?case by simp
qed

lemma length_map_filter_all:
  "\<forall>x \<in> set xs. f x \<noteq> None \<Longrightarrow> length (List.map_filter f xs) = length xs"
  by (induction xs) (auto simp: List.map_filter_simps)

lemma written_write_entries_length:
  assumes "\<forall>x \<in> set items. sample_of P x \<noteq> None"
  shows "length (written (write_entries P items st)) = length (written st) + length items"
  using length_map_filter_all[OF assms] by (simp add: written_write_entries)

lemma big_rows_distinct: "distinct (map filename (map big_row [0..<m]))"
proof -
  have "inj_on (\<lambda>i. replicate i CHR ''x'' @ ''.jpg'') (set [0..<m])"
  proof (rule inj_onI)
    fix i j
    assume "replicate i CHR ''x'' @ ''.jpg'' = replicate j CHR ''x'' @ ''.jpg''"
    then have "length (replicate i CHR ''x'') = length (replicate j CHR ''x'')" by simp
    then show "i = j" by simp
  qed
  then have "distinct (map (\<lambda>i. replicate i CHR ''x'' @ ''.jpg'') [0..<m])"
    by (simp add: distinct_map)
  then show ?thesis by (simp add: comp_def big_row_def)
qed

lemma big_sample: "sample_of toy_pil (fn, \<lparr>prompt_text = Some ''c'', image_bytes = Some [0xFF, 1]\<rparr>) \<noteq> None"
  by (simp add: sample_of_def get_image_bytes_validate_and_dims_def toy_pil_def toy_open_def
      toy_verify_def detected_format_def chosen_format_def lower_def lower_char_def)

lemma big_env_written: "length (written (second_pass big_env [''train-0.parquet''])) = 25000"
proof -
  let ?rows = "map big_row [0..<big_count]"
  let ?d = "map (\<lambda>r. (filename r,
                 \<lparr>prompt_text = caption r, image_bytes = the (extract_image_bytes (image r))\<rparr>)) ?rows"
  have x: "\<forall>r \<in> set ?rows. extract_image_bytes (image r) \<noteq> None"
    by (simp add: big_row_def)
  have "process_rows ?rows ([], [MsgStep1]) = (([] @ ?d, [MsgStep1]), None)"
    by (rule fresh_rows_appended[OF big_rows_distinct _ x]) simp
  then have agg: "aggregate big_table [''train-0.parquet''] = (?d, [MsgStep1])"
    by (simp add: aggregate_def process_file_def big_table_def except_clause_def)
  have s: "\<forall>x \<in> set ?d. sample_of toy_pil x \<noteq> None"
    using big_sample by (auto simp: big_row_def)
  have "length ?d = big_count" by simp
  with written_write_entries_length[OF s] have "length (written (second_pass big_env [''train-0.parquet'']))
      = big_count"
    by (simp add: second_pass_def big_env_def agg)
  then show ?thesis by (simp only: big_count_def)
qed

text \<open>The call of the main block on the file of 25000 rows, with 10000 samples per
  shard: three files with 10000, 10000 and 5000 samples.\<close>

theorem shards_of_run_witness:
  "length (written (second_pass big_env [''train-0.parquet''])) = 25000
   \<and> (\<exists>oc. convert_parquet_to_webdataset_with_dims big_env [''train-0.parquet'']
              ''out/train'' ''coco-train'' 10000 = Inr oc
        \<and> map (\<lambda>sh. (fst sh, length (snd sh))) (shard_files oc) =
            [(''out/train/coco-train-000000.tar'', 10000),
             (''out/train/coco-train-000001.tar'', 10000),
             (''out/train/coco-train-000002.tar'', 5000)]
        \<and> concat (map snd (shard_files oc)) = written (second_pass big_env [''train-0.parquet'']))
   \<and> decimal_value (fmt_06d 2) = 2
   \<and> length (fmt_06d 2) = 6"
proof -
  let ?W = "written (second_pass big_env [''train-0.parquet''])"
  have h1: "(0::int) < 10000" by simp
  have h2: "CHR ''%'' \<notin> set ''out/train''" by simp
  have h3: "CHR ''%'' \<notin> set ''coco-train''" by simp
  have h4: "makedirs big_env ''out/train'' = None" by (simp add: big_env_def)
  have l: "length ?W = 25000" by (rule big_env_written)
  have n0: "path_join ''out/train'' (''coco-train'' @ ''-000000.tar'') = ''out/train/coco-train-000000.tar''"
    by code_simp
  have n1: "path_join ''out/train'' (''coco-train'' @ ''-000001.tar'') = ''out/train/coco-train-000001.tar''"
    by code_simp
  have n2: "path_join ''out/train'' (''coco-train'' @ ''-000002.tar'') = ''out/train/coco-train-000002.tar''"
    by code_simp
  from shards_of_run[OF h1 h2 h3 h4, of "[''train-0.parquet'']" 2]
  obtain oc where oc:
    "convert_parquet_to_webdataset_with_dims big_env [''train-0.parquet''] ''out/train'' ''coco-train'' 10000
       = Inr oc"
    "(10000::int) = 10000 \<and> length ?W = 25000 \<longrightarrow>
       shard_files oc =
         [(path_join ''out/train'' (''coco-train'' @ ''-000000.tar''), take 10000 ?W),
          (path_join ''out/train'' (''coco-train'' @ ''-000001.tar''), take 10000 (drop 10000 ?W)),
          (path_join ''out/train'' (''coco-train'' @ ''-000002.tar''), drop 20000 ?W)]"
    "concat (map snd (shard_files oc)) = ?W"
    "decimal_value (fmt_06d 2) = 2"
    "(2::nat) < 1000000 \<longrightarrow> length (fmt_06d 2) = 6"
    by blast
  from oc(2) l have "shard_files oc =
         [(''out/train/coco-train-000000.tar'', take 10000 ?W),
          (''out/train/coco-train-000001.tar'', take 10000 (drop 10000 ?W)),
          (''out/train/coco-train-000002.tar'', drop 20000 ?W)]"
    unfolding n0 n1 n2 by simp
  then have m: "map (\<lambda>sh. (fst sh, length (snd sh))) (shard_files oc) =
            [(''out/train/coco-train-000000.tar'', 10000),
             (''out/train/coco-train-000001.tar'', 10000),
             (''out/train/coco-train-000002.tar'', 5000)]"
    using l by simp
  have f: "length (fmt_06d 2) = 6" using oc(5) by simp
  from oc(1) m oc(3) have "\<exists>oc. convert_parquet_to_webdataset_with_dims big_env [''train-0.parquet'']
              ''out/train'' ''coco-train'' 10000 = Inr oc
        \<and> map (\<lambda>sh. (fst sh, length (snd sh))) (shard_files oc) =
            [(''out/train/coco-train-000000.tar'', 10000),
             (''out/train/coco-train-000001.tar'', 10000),
             (''out/train/coco-train-000002.tar'', 5000)]
        \<and> concat (map snd (shard_files oc)) = ?W" by (intro exI[of _ oc] conjI)
  with l oc(4) f show ?thesis by (intro conjI)
qed

section \<open>The main block and the script\<close>

text \<open>When no path matches the pattern \<open><input_dir>/<split>-*.parquet\<close>, the
  statements of the main block print the error and end normally: they create no
  directory and write no shard file, whatever the rest of the environment would do.\<close>

lemma main_block_no_input_files:
  assumes "glob E (parquet_pattern a) = []"
  shows "main_block E a =
           Inr \<lparr>stdout = [ErrNoParquet (parquet_pattern a)], dirs_created = [], shard_files = []\<rparr>"
  using assms by (simp add: main_block_def)

text \<open>
  C8. The code does not do what the claim says. The main block would print the error
  and end normally (\<open>main_block_no_input_files\<close>), but it never runs: the file starts
  with a backquote, so every run of the script, with matching input files or without,
  ends in the \<open>SyntaxError\<close> before the first statement; nothing is printed to the
  standard output and the script does not terminate normally.
\<close>

theorem script_ends_in_syntax_error:
  "script E a = Inl syntax_error"
  by (simp add: script_def starts_with_backquote_def line_1_def)

theorem script_ends_in_syntax_error_witness:
  "glob empty_env (parquet_pattern train_args) = []
   \<and> script empty_env train_args = Inl (Exception ''invalid syntax'')"
proof -
  have g: "glob empty_env (parquet_pattern train_args) = []" by (simp add: empty_env_def)
  from script_ends_in_syntax_error[of empty_env train_args] g
  show ?thesis by (simp add: syntax_error_def)
qed

end
